theory Spec2Isabelle
  imports Main "HOL-Library.Word" "HOL-Library.Sublist"
begin

unbundle bit_operations_syntax

section \<open>Migration descriptor translation (storage_migration.go)\<close>

subsection \<open>Go's time.Time\<close>

text \<open>
  \<^verbatim>\<open>time.Time\<close> is the Go standard library's struct
  \<^verbatim>\<open>{wall uint64; ext int64; loc *Location}\<close>. Its zero value has all three fields
  zero (a nil location pointer). \<^verbatim>\<open>time.Unix(sec, nsec)\<close> with
  \<^verbatim>\<open>0 <= nsec < 1e9\<close> returns \<^verbatim>\<open>Time{uint64(nsec), sec + unixToInternal, Local}\<close>,
  where \<^verbatim>\<open>Local\<close> is a non-nil pointer and the addition is 64-bit.
\<close>

datatype Location = Local

record Time =
  wall :: "64 word"
  ext :: "64 word"
  loc :: "Location option"

definition zeroTime :: Time where
  "zeroTime = \<lparr>wall = 0, ext = 0, loc = None\<rparr>"

definition unixToInternal :: "64 word" where
  "unixToInternal = (1969 * 365 + 1969 div 4 - 1969 div 100 + 1969 div 400) * 86400"

definition internalToUnix :: "64 word" where
  "internalToUnix = - unixToInternal"

definition wallToInternal :: "64 word" where
  "wallToInternal = (1884 * 365 + 1884 div 4 - 1884 div 100 + 1884 div 400) * 86400"

definition hasMonotonic :: "64 word" where
  "hasMonotonic = push_bit 63 1"

definition nsecMask :: "64 word" where
  "nsecMask = push_bit 30 1 - 1"

definition unixTime :: "64 word \<Rightarrow> 32 word \<Rightarrow> Time" where
  "unixTime sec nsec = \<lparr>wall = ucast nsec, ext = sec + unixToInternal, loc = Some Local\<rparr>"

text \<open>The translator only calls \<^verbatim>\<open>time.Unix(v, 0)\<close>; with \<^verbatim>\<open>nsec = 0\<close> the
  normalisation branch of \<^verbatim>\<open>time.Unix\<close> is not entered, and the call is
  \<^verbatim>\<open>unixTime(v, 0)\<close>. \<open>time_Unix v\<close> stands for \<^verbatim>\<open>time.Unix(v, 0)\<close>.\<close>

definition time_Unix :: "64 word \<Rightarrow> Time" where
  "time_Unix sec = unixTime sec 0"

definition Time_sec :: "Time \<Rightarrow> 64 word" where
  "Time_sec t =
     (if wall t AND hasMonotonic \<noteq> 0
      then wallToInternal + drop_bit 31 (push_bit 1 (wall t))
      else ext t)"

definition Time_nsec :: "Time \<Rightarrow> 32 word" where
  "Time_nsec t = ucast (wall t AND nsecMask)"

definition Time_IsZero :: "Time \<Rightarrow> bool" where
  "Time_IsZero t = (Time_sec t = 0 \<and> Time_nsec t = 0)"

definition Time_Unix :: "Time \<Rightarrow> 64 word" where
  "Time_Unix t = Time_sec t + internalToUnix"

subsection \<open>The descriptor and the instance record\<close>

text \<open>
  Modelled from the spec: package \<^verbatim>\<open>migration\<close> (the wire format) and the struct
  \<^verbatim>\<open>db.InstanceArgs\<close> are not among the sources. A descriptor carries an architecture
  code, local configuration entries (key/value pairs), local device entries (a name plus
  property key/value pairs), a profile name list, the ephemeral and stateful flags, the
  creation and last-used timestamps as integer epoch seconds, and a name. Each field of
  the records below holds what the accessor of the same name returns in the source
  (\<^verbatim>\<open>GetKey()\<close>, \<^verbatim>\<open>GetName()\<close>, ...); the descriptor and its entries are
  non-nil, as a decoded message's are. \<^verbatim>\<open>db.InstanceArgs\<close> is given the fields the
  translator assigns; a field it does not assign keeps Go's zero value.
\<close>

record migration_Config =
  GetKey :: string
  GetValue :: string

record migration_Device =
  dev_GetName :: string
  dev_Config :: "migration_Config list"

record migration_Snapshot =
  GetName :: string
  LocalConfig :: "migration_Config list"
  snap_Profiles :: "string list"
  GetEphemeral :: bool
  LocalDevices :: "migration_Device list"
  GetArchitecture :: "32 word"
  GetStateful :: bool
  GetCreationDate :: "64 word"
  GetLastUsedDate :: "64 word"

datatype instancetype_Type = Any | Container | VM

type_synonym deviceConfig_Devices = "string \<rightharpoonup> (string \<rightharpoonup> string)"

record db_InstanceArgs =
  Architecture :: int
  Config :: "string \<rightharpoonup> string"
  Type :: instancetype_Type
  Snapshot :: bool
  Devices :: deviceConfig_Devices
  Ephemeral :: bool
  Name :: string
  Profiles :: "string list"
  Stateful :: bool
  Project :: string
  CreationDate :: Time
  LastUsedDate :: Time

subsection \<open>snapshotProtobufToInstanceArgs\<close>

text \<open>The two loops that fill the maps. A Go map assignment \<^verbatim>\<open>m[k] = v\<close> overwrites
  an earlier value stored under \<open>k\<close>.\<close>

fun config_loop :: "migration_Config list \<Rightarrow> (string \<rightharpoonup> string) \<Rightarrow> (string \<rightharpoonup> string)" where
  "config_loop [] config = config"
| "config_loop (ent # ents) config = config_loop ents (config(GetKey ent \<mapsto> GetValue ent))"

fun devices_loop :: "migration_Device list \<Rightarrow> deviceConfig_Devices \<Rightarrow> deviceConfig_Devices" where
  "devices_loop [] devices = devices"
| "devices_loop (ent # ents) devices =
     devices_loop ents (devices(dev_GetName ent \<mapsto> config_loop (dev_Config ent) Map.empty))"

text \<open>\<open>SnapshotDelimiter\<close> is the constant \<^verbatim>\<open>shared.SnapshotDelimiter\<close>, which is
  declared outside the sources; the translator takes it as a parameter.\<close>

definition snapshotProtobufToInstanceArgs ::
  "string \<Rightarrow> string \<Rightarrow> string \<Rightarrow> migration_Snapshot \<Rightarrow> db_InstanceArgs" where
  "snapshotProtobufToInstanceArgs SnapshotDelimiter project containerName snap =
     (let config = config_loop (LocalConfig snap) Map.empty;
          devices = devices_loop (LocalDevices snap) Map.empty;
          name = containerName @ SnapshotDelimiter @ GetName snap;
          args = \<lparr>Architecture = sint (GetArchitecture snap),
                  Config = config,
                  Type = Container,
                  Snapshot = True,
                  Devices = devices,
                  Ephemeral = GetEphemeral snap,
                  Name = name,
                  Profiles = snap_Profiles snap,
                  Stateful = GetStateful snap,
                  Project = project,
                  CreationDate = zeroTime,
                  LastUsedDate = zeroTime\<rparr>;
          args = (if GetCreationDate snap \<noteq> 0
                  then args\<lparr>CreationDate := time_Unix (GetCreationDate snap)\<rparr> else args);
          args = (if GetLastUsedDate snap \<noteq> 0
                  then args\<lparr>LastUsedDate := time_Unix (GetLastUsedDate snap)\<rparr> else args)
      in args)"

text \<open>The entries of a descriptor as key/value pairs, in wire order.\<close>

definition config_pairs :: "migration_Config list \<Rightarrow> (string \<times> string) list" where
  "config_pairs ents = map (\<lambda>ent. (GetKey ent, GetValue ent)) ents"

definition device_pairs :: "migration_Device list \<Rightarrow> (string \<times> (string \<rightharpoonup> string)) list" where
  "device_pairs ents =
     map (\<lambda>ent. (dev_GetName ent, map_of (rev (config_pairs (dev_Config ent))))) ents"

text \<open>Example descriptors.\<close>

definition snap_daily :: migration_Snapshot where
  "snap_daily = \<lparr>GetName = ''daily'',
     LocalConfig = [\<lparr>GetKey = ''limits.cpu'', GetValue = ''2''\<rparr>,
                    \<lparr>GetKey = ''boot.autostart'', GetValue = ''true''\<rparr>],
     snap_Profiles = [''default''],
     GetEphemeral = False,
     LocalDevices = [\<lparr>dev_GetName = ''eth0'',
                       dev_Config = [\<lparr>GetKey = ''type'', GetValue = ''nic''\<rparr>,
                                     \<lparr>GetKey = ''nictype'', GetValue = ''bridged''\<rparr>]\<rparr>],
     GetArchitecture = 2,
     GetStateful = False,
     GetCreationDate = 1700000000,
     GetLastUsedDate = 0\<rparr>"

definition snap_dup :: migration_Snapshot where
  "snap_dup = snap_daily\<lparr>LocalConfig :=
     [\<lparr>GetKey = ''limits.cpu'', GetValue = ''2''\<rparr>,
      \<lparr>GetKey = ''limits.cpu'', GetValue = ''4''\<rparr>]\<rparr>"

definition snap_used :: migration_Snapshot where
  "snap_used = snap_daily\<lparr>GetLastUsedDate := 1700000100\<rparr>"

section \<open>The lifecycle supervisor\<close>

subsection \<open>The world the supervisor acts on\<close>

text \<open>
  Modelled from the spec: the metadata store, the container runtime handle and the
  storage back end are external collaborators whose code is not among the sources
  (\<^verbatim>\<open>dbQueryScan\<close>, \<^verbatim>\<open>dbExec\<close>, \<^verbatim>\<open>dbContainerIDGet\<close>, \<^verbatim>\<open>newLxdContainer\<close>, the
  container's methods, \<^verbatim>\<open>filesystemDetect\<close>, \<^verbatim>\<open>btrfsDeleteSubvol\<close>, \<^verbatim>\<open>shared.VarPath\<close>).
  The metadata store is read by simple equality and prefix filters, one scalar field is
  updated, rows are deleted by id; the runtime handle's operations are blocking calls that
  return success or failure and act on the run state of the instance; the storage back
  end detects the kind of file system under a path, deletes a subvolume, and removes a
  directory tree. What each SQL statement does is read off the statement's text in the
  source.

  Which calls fail is not decided by the supervisor: a parameter \<open>fails\<close> says, for each
  call, whether it returns an error. Every call is recorded in the \<open>trace\<close> of the state,
  oldest first, so that claims about the order of calls are claims about this list.
\<close>

datatype cType = cTypeRegular | cTypeSnapshot

record row =
  row_id :: int
  row_name :: string
  row_type :: cType
  row_ephemeral :: bool
  power_state :: int

datatype lxc_State = STOPPED | RUNNING

datatype query =
    SelectPowerOn cType
  | SelectByType cType
  | SelectSnapshots cType nat string

datatype stmt =
    ClearPowerState
  | SetPowerState string
  | DeleteById int

datatype call =
    DbQueryScan query
  | DbExec stmt
  | DbContainerIDGet string
  | ListRegularContainers
  | NewLxdContainer string
  | IsRunning string bool
  | Start string
  | Shutdown string int
  | Stop string
  | Delete string
  | LXContainerGet string
  | Wait string lxc_State int
  | FilesystemDetect string
  | BtrfsDeleteSubvol string
  | RemoveAll string

datatype error = Failed call | NotExist call | NoRows call

fun os_IsNotExist :: "error \<Rightarrow> bool" where
  "os_IsNotExist (NotExist c) = True"
| "os_IsNotExist (Failed c) = False"
| "os_IsNotExist (NoRows c) = False"

record Daemon =
  db :: "row list"
  running :: "string list"
  storage :: "string list"
  fstype :: string
  trace :: "call list"

type_synonym faults = "call \<Rightarrow> bool"

definition record_call :: "call \<Rightarrow> Daemon \<Rightarrow> Daemon" where
  "record_call c d = d\<lparr>trace := trace d @ [c]\<rparr>"

subsection \<open>The metadata store\<close>

text \<open>
  The queries of the source, each returning (name, id) pairs in table order:
  \<^item> \<open>SelectPowerOn t\<close> is
    \<^verbatim>\<open>SELECT name FROM containers WHERE type=? AND power_state=1\<close>;
  \<^item> \<open>SelectByType t\<close> is \<^verbatim>\<open>SELECT name FROM containers WHERE type=?\<close>;
  \<^item> \<open>SelectSnapshots t n p\<close> is
    \<^verbatim>\<open>SELECT name, id FROM containers WHERE type=? AND SUBSTR(name,1,?)=?\<close>
    (\<^verbatim>\<open>SUBSTR(name,1,n)\<close> is the first \<open>n\<close> characters of the name; instance names are
    ASCII, so characters are bytes).
  The statements:
  \<^item> \<open>ClearPowerState\<close> is \<^verbatim>\<open>UPDATE containers SET power_state=0\<close>;
  \<^item> \<open>SetPowerState n\<close> is \<^verbatim>\<open>UPDATE containers SET power_state=1 WHERE name=?\<close>;
  \<^item> \<open>DeleteById i\<close> is \<^verbatim>\<open>DELETE FROM containers WHERE id=?\<close>.
\<close>

fun matches :: "query \<Rightarrow> row \<Rightarrow> bool" where
  "matches (SelectPowerOn t) r = (row_type r = t \<and> power_state r = 1)"
| "matches (SelectByType t) r = (row_type r = t)"
| "matches (SelectSnapshots t n p) r = (row_type r = t \<and> take n (row_name r) = p)"

definition run_query :: "query \<Rightarrow> row list \<Rightarrow> (string \<times> int) list" where
  "run_query q rows = map (\<lambda>r. (row_name r, row_id r)) (filter (matches q) rows)"

fun run_stmt :: "stmt \<Rightarrow> row list \<Rightarrow> row list" where
  "run_stmt ClearPowerState rows = map (\<lambda>r. r\<lparr>power_state := 0\<rparr>) rows"
| "run_stmt (SetPowerState n) rows =
     map (\<lambda>r. if row_name r = n then r\<lparr>power_state := 1\<rparr> else r) rows"
| "run_stmt (DeleteById i) rows = filter (\<lambda>r. row_id r \<noteq> i) rows"

definition dbQueryScan :: "faults \<Rightarrow> query \<Rightarrow> Daemon \<Rightarrow> (error + (string \<times> int) list) \<times> Daemon" where
  "dbQueryScan fails q d =
     (if fails (DbQueryScan q) then (Inl (Failed (DbQueryScan q)), record_call (DbQueryScan q) d)
      else (Inr (run_query q (db d)), record_call (DbQueryScan q) d))"

definition dbExec :: "faults \<Rightarrow> stmt \<Rightarrow> Daemon \<Rightarrow> error option \<times> Daemon" where
  "dbExec fails s d =
     (if fails (DbExec s) then (Some (Failed (DbExec s)), record_call (DbExec s) d)
      else (None, record_call (DbExec s) (d\<lparr>db := run_stmt s (db d)\<rparr>)))"

definition ListRegularContainers_call :: "faults \<Rightarrow> Daemon \<Rightarrow> (error + string list) \<times> Daemon" where
  "ListRegularContainers_call fails d =
     (if fails ListRegularContainers
      then (Inl (Failed ListRegularContainers), record_call ListRegularContainers d)
      else (Inr (map fst (run_query (SelectByType cTypeRegular) (db d))),
            record_call ListRegularContainers d))"


subsection \<open>The container handle\<close>

definition newLxdContainer :: "faults \<Rightarrow> string \<Rightarrow> Daemon \<Rightarrow> error option \<times> Daemon" where
  "newLxdContainer fails n d =
     (if fails (NewLxdContainer n)
      then (Some (Failed (NewLxdContainer n)), record_call (NewLxdContainer n) d)
      else (None, record_call (NewLxdContainer n) d))"

definition container_IsRunning :: "string \<Rightarrow> Daemon \<Rightarrow> bool \<times> Daemon" where
  "container_IsRunning n d =
     (n \<in> set (running d), record_call (IsRunning n (n \<in> set (running d))) d)"

definition container_IsEmpheral :: "string \<Rightarrow> Daemon \<Rightarrow> bool" where
  "container_IsEmpheral n d = (\<exists>r \<in> set (db d). row_name r = n \<and> row_ephemeral r)"

definition container_Start :: "faults \<Rightarrow> string \<Rightarrow> Daemon \<Rightarrow> error option \<times> Daemon" where
  "container_Start fails n d =
     (if fails (Start n) then (Some (Failed (Start n)), record_call (Start n) d)
      else (None, record_call (Start n) (d\<lparr>running := List.insert n (running d)\<rparr>)))"

text \<open>\<^verbatim>\<open>Shutdown(timeout)\<close> fails when the instance has not stopped by the deadline; it
  is then still running.\<close>

definition container_Shutdown :: "faults \<Rightarrow> string \<Rightarrow> int \<Rightarrow> Daemon \<Rightarrow> error option \<times> Daemon" where
  "container_Shutdown fails n timeout d =
     (if fails (Shutdown n timeout)
      then (Some (Failed (Shutdown n timeout)), record_call (Shutdown n timeout) d)
      else (None, record_call (Shutdown n timeout) (d\<lparr>running := removeAll n (running d)\<rparr>)))"

definition container_Stop :: "faults \<Rightarrow> string \<Rightarrow> Daemon \<Rightarrow> error option \<times> Daemon" where
  "container_Stop fails n d =
     (if fails (Stop n) then (Some (Failed (Stop n)), record_call (Stop n) d)
      else (None, record_call (Stop n) (d\<lparr>running := removeAll n (running d)\<rparr>)))"



subsection \<open>The storage back end\<close>

text \<open>A path \<open>q\<close> is under \<open>p\<close> when it is \<open>p\<close> or lies below the directory \<open>p\<close>.\<close>

definition under :: "string \<Rightarrow> string \<Rightarrow> bool" where
  "under p q = (q = p \<or> prefix (p @ ''/'') q)"

text \<open>\<^verbatim>\<open>filesystemDetect\<close> asks the kernel for the file system of a path; a path that does
  not exist gives an error that \<^verbatim>\<open>os.IsNotExist\<close> recognises, with an empty answer.\<close>

definition filesystemDetect :: "faults \<Rightarrow> string \<Rightarrow> Daemon \<Rightarrow> (string \<times> error option) \<times> Daemon" where
  "filesystemDetect fails p d =
     (if p \<notin> set (storage d)
      then (([], Some (NotExist (FilesystemDetect p))), record_call (FilesystemDetect p) d)
      else if fails (FilesystemDetect p)
      then (([], Some (Failed (FilesystemDetect p))), record_call (FilesystemDetect p) d)
      else ((fstype d, None), record_call (FilesystemDetect p) d))"

definition btrfsDeleteSubvol :: "faults \<Rightarrow> string \<Rightarrow> Daemon \<Rightarrow> error option \<times> Daemon" where
  "btrfsDeleteSubvol fails p d =
     (if fails (BtrfsDeleteSubvol p) \<or> p \<notin> set (storage d)
      then (Some (Failed (BtrfsDeleteSubvol p)), record_call (BtrfsDeleteSubvol p) d)
      else (None, record_call (BtrfsDeleteSubvol p)
              (d\<lparr>storage := filter (\<lambda>q. \<not> under p q) (storage d)\<rparr>)))"

text \<open>\<^verbatim>\<open>os.RemoveAll\<close> removes the path and everything below it; removing a path that
  does not exist is not an error.\<close>

definition os_RemoveAll :: "faults \<Rightarrow> string \<Rightarrow> Daemon \<Rightarrow> error option \<times> Daemon" where
  "os_RemoveAll fails p d =
     (if fails (RemoveAll p) then (Some (Failed (RemoveAll p)), record_call (RemoveAll p) d)
      else (None, record_call (RemoveAll p)
              (d\<lparr>storage := filter (\<lambda>q. \<not> under p q) (storage d)\<rparr>)))"

subsection \<open>containersRestart\<close>

text \<open>The loop of \<^verbatim>\<open>containersRestart\<close>: an instance that cannot be loaded ends the
  function with that error; the result of \<^verbatim>\<open>container.Start()\<close> is dropped.\<close>

fun restart_loop :: "faults \<Rightarrow> string list \<Rightarrow> Daemon \<Rightarrow> error option \<times> Daemon" where
  "restart_loop fails [] d = (None, d)"
| "restart_loop fails (r # rs) d =
     (case newLxdContainer fails r d of
        (Some err, d1) \<Rightarrow> (Some err, d1)
      | (None, d1) \<Rightarrow> restart_loop fails rs (snd (container_Start fails r d1)))"

definition containersRestart :: "faults \<Rightarrow> Daemon \<Rightarrow> error option \<times> Daemon" where
  "containersRestart fails d =
     (case dbQueryScan fails (SelectPowerOn cTypeRegular) d of
        (Inl err, d1) \<Rightarrow> (Some err, d1)
      | (Inr result, d1) \<Rightarrow>
          (case dbExec fails ClearPowerState d1 of
             (Some err, d2) \<Rightarrow> (Some err, d2)
           | (None, d2) \<Rightarrow> restart_loop fails (map fst result) d2))"

subsection \<open>containersShutdown\<close>

text \<open>
  The body of the goroutine started for a running instance: a graceful shutdown with
  a timeout of 30 seconds, then \<^verbatim>\<open>Stop()\<close>; both results are dropped.
\<close>

definition shutdown_goroutine :: "faults \<Rightarrow> string \<Rightarrow> Daemon \<Rightarrow> Daemon" where
  "shutdown_goroutine fails r d =
     snd (container_Stop fails r (snd (container_Shutdown fails r 30 d)))"

text \<open>
  The loop of \<^verbatim>\<open>containersShutdown\<close>. \<^verbatim>\<open>wg.Wait()\<close> stands inside the loop body, after
  the \<^verbatim>\<open>if\<close>: an iteration that started a goroutine waits for it before the next
  instance is loaded, so the goroutine's body runs here between the update and the
  next iteration. (The interleaving semantics below shows that this is the only
  schedule.)
\<close>

fun shutdown_loop :: "faults \<Rightarrow> string list \<Rightarrow> Daemon \<Rightarrow> error option \<times> Daemon" where
  "shutdown_loop fails [] d = (None, d)"
| "shutdown_loop fails (r # rs) d =
     (case newLxdContainer fails r d of
        (Some err, d1) \<Rightarrow> (Some err, d1)
      | (None, d1) \<Rightarrow>
          (case container_IsRunning r d1 of
             (True, d2) \<Rightarrow>
               (case dbExec fails (SetPowerState r) d2 of
                  (Some err, d3) \<Rightarrow> (Some err, d3)
                | (None, d3) \<Rightarrow> shutdown_loop fails rs (shutdown_goroutine fails r d3))
           | (False, d2) \<Rightarrow> shutdown_loop fails rs d2))"

definition containersShutdown :: "faults \<Rightarrow> Daemon \<Rightarrow> error option \<times> Daemon" where
  "containersShutdown fails d =
     (case ListRegularContainers_call fails d of
        (Inl err, d1) \<Rightarrow> (Some err, d1)
      | (Inr results, d1) \<Rightarrow> shutdown_loop fails results d1)"

subsection \<open>containerDeleteSnapshots\<close>

text \<open>The first loop collects the ids and removes the storage of each snapshot; no
  result of a removal is looked at. \<open>VarPath\<close> is \<^verbatim>\<open>shared.VarPath\<close>, taken as a
  parameter.\<close>

fun remove_loop ::
  "faults \<Rightarrow> (string \<Rightarrow> string \<Rightarrow> string) \<Rightarrow> string \<Rightarrow> (string \<times> int) list \<Rightarrow> int list \<Rightarrow> Daemon
     \<Rightarrow> int list \<times> Daemon" where
  "remove_loop fails VarPath backingFs [] ids d = (ids, d)"
| "remove_loop fails VarPath backingFs ((sname, id') # rs) ids d =
     (let cdir = VarPath ''snapshots'' sname;
          d1 = (if backingFs = ''btrfs'' then snd (btrfsDeleteSubvol fails cdir d) else d);
          d2 = snd (os_RemoveAll fails cdir d1)
      in remove_loop fails VarPath backingFs rs (ids @ [id']) d2)"

text \<open>The second loop deletes the rows; the first failing delete ends the function.\<close>

fun delete_loop :: "faults \<Rightarrow> int list \<Rightarrow> Daemon \<Rightarrow> error option \<times> Daemon" where
  "delete_loop fails [] d = (None, d)"
| "delete_loop fails (id' # ids) d =
     (case dbExec fails (DeleteById id') d of
        (Some err, d1) \<Rightarrow> (Some err, d1)
      | (None, d1) \<Rightarrow> delete_loop fails ids d1)"

definition containerDeleteSnapshots ::
  "faults \<Rightarrow> (string \<Rightarrow> string \<Rightarrow> string) \<Rightarrow> string \<Rightarrow> string \<Rightarrow> Daemon \<Rightarrow> error option \<times> Daemon" where
  "containerDeleteSnapshots fails VarPath SnapshotDelimiter cname d =
     (let prefix' = cname @ SnapshotDelimiter;
          length' = length prefix'
      in case dbQueryScan fails (SelectSnapshots cTypeSnapshot length' prefix') d of
           (Inl err, d1) \<Rightarrow> (Some err, d1)
         | (Inr results, d1) \<Rightarrow>
             (case filesystemDetect fails (VarPath ''containers'' cname) d1 of
                ((backingFs, Some err), d2) \<Rightarrow>
                  (if \<not> os_IsNotExist err then (Some err, d2)
                   else (case remove_loop fails VarPath backingFs results [] d2 of
                           (ids, d3) \<Rightarrow> delete_loop fails ids d3))
              | ((backingFs, None), d2) \<Rightarrow>
                  (case remove_loop fails VarPath backingFs results [] d2 of
                     (ids, d3) \<Rightarrow> delete_loop fails ids d3)))"

subsection \<open>Reading a trace\<close>

text \<open>The names for which \<^verbatim>\<open>Start()\<close> was called, in order, and the names that were
  loaded with \<^verbatim>\<open>newLxdContainer\<close>.\<close>

fun started :: "call list \<Rightarrow> string list" where
  "started [] = []"
| "started (Start n # t) = n # started t"
| "started (c # t) = started t"

fun loaded :: "call list \<Rightarrow> string list" where
  "loaded [] = []"
| "loaded (NewLxdContainer n # t) = n # loaded t"
| "loaded (c # t) = loaded t"

text \<open>The calls a function adds to the trace of the state it starts in.\<close>

definition emitted :: "Daemon \<Rightarrow> Daemon \<Rightarrow> call list" where
  "emitted d d' = drop (length (trace d)) (trace d')"

fun is_load_or_start :: "call \<Rightarrow> bool" where
  "is_load_or_start (NewLxdContainer n) = True"
| "is_load_or_start (Start n) = True"
| "is_load_or_start c = False"

definition flagged :: "Daemon \<Rightarrow> string list" where
  "flagged d = map fst (run_query (SelectPowerOn cTypeRegular) (db d))"

definition regular :: "Daemon \<Rightarrow> string list" where
  "regular d = map fst (run_query (SelectByType cTypeRegular) (db d))"


text \<open>The calls the loop of \<^verbatim>\<open>containersRestart\<close> makes for a list of names.\<close>

fun restart_calls :: "faults \<Rightarrow> string list \<Rightarrow> call list" where
  "restart_calls f [] = []"
| "restart_calls f (r # rs) =
     (if f (NewLxdContainer r) then [NewLxdContainer r]
      else NewLxdContainer r # Start r # restart_calls f rs)"

text \<open>The shape of the calls the loop of \<^verbatim>\<open>containersShutdown\<close> makes: one block
  per instance, ended by the first failing load or update.\<close>

inductive shutdown_trace :: "faults \<Rightarrow> call list \<Rightarrow> bool" for f :: faults where
  st_done: "shutdown_trace f []"
| st_load_failed:
    "f (NewLxdContainer r) \<Longrightarrow> shutdown_trace f [NewLxdContainer r]"
| st_not_running:
    "\<not> f (NewLxdContainer r) \<Longrightarrow> shutdown_trace f t
       \<Longrightarrow> shutdown_trace f (NewLxdContainer r # IsRunning r False # t)"
| st_update_failed:
    "\<not> f (NewLxdContainer r) \<Longrightarrow> f (DbExec (SetPowerState r))
       \<Longrightarrow> shutdown_trace f [NewLxdContainer r, IsRunning r True, DbExec (SetPowerState r)]"
| st_shut:
    "\<not> f (NewLxdContainer r) \<Longrightarrow> \<not> f (DbExec (SetPowerState r)) \<Longrightarrow> shutdown_trace f t
       \<Longrightarrow> shutdown_trace f (NewLxdContainer r # IsRunning r True # DbExec (SetPowerState r)
                             # Shutdown r 30 # Stop r # t)"

text \<open>The calls of the two loops of \<^verbatim>\<open>containerDeleteSnapshots\<close>.\<close>

fun remove_calls :: "(string \<Rightarrow> string \<Rightarrow> string) \<Rightarrow> string \<Rightarrow> (string \<times> int) list \<Rightarrow> call list" where
  "remove_calls VarPath backingFs [] = []"
| "remove_calls VarPath backingFs ((sname, i) # rs) =
     (if backingFs = ''btrfs'' then [BtrfsDeleteSubvol (VarPath ''snapshots'' sname)] else [])
     @ RemoveAll (VarPath ''snapshots'' sname) # remove_calls VarPath backingFs rs"

fun delete_calls :: "faults \<Rightarrow> int list \<Rightarrow> call list" where
  "delete_calls f [] = []"
| "delete_calls f (i # ids) =
     DbExec (DeleteById i) # (if f (DbExec (DeleteById i)) then [] else delete_calls f ids)"

text \<open>The query of \<^verbatim>\<open>containerDeleteSnapshots\<close> for an instance name, and the absence
  of a snapshot's storage: no existing path is the snapshot's directory or lies below
  it.\<close>

definition snapshots_query :: "string \<Rightarrow> string \<Rightarrow> query" where
  "snapshots_query SnapshotDelimiter cname =
     SelectSnapshots cTypeSnapshot (length (cname @ SnapshotDelimiter)) (cname @ SnapshotDelimiter)"

definition storage_absent :: "(string \<Rightarrow> string \<Rightarrow> string) \<Rightarrow> string \<Rightarrow> Daemon \<Rightarrow> bool" where
  "storage_absent VarPath sname d =
     list_all (\<lambda>p. \<not> under (VarPath ''snapshots'' sname) p) (storage d)"

subsection \<open>Example states\<close>

definition no_faults :: faults where
  "no_faults c = False"

definition fail_Start_a :: faults where
  "fail_Start_a c = (c = Start ''a'')"


definition fail_stop_a :: faults where
  "fail_stop_a c = (c = Shutdown ''a'' 30 \<or> c = Stop ''a'')"





definition row_a :: row where
  "row_a = \<lparr>row_id = 1, row_name = ''a'', row_type = cTypeRegular, row_ephemeral = False,
            power_state = 1\<rparr>"

definition row_b :: row where
  "row_b = \<lparr>row_id = 2, row_name = ''b'', row_type = cTypeRegular, row_ephemeral = False,
            power_state = 1\<rparr>"

definition row_c :: row where
  "row_c = \<lparr>row_id = 3, row_name = ''c'', row_type = cTypeRegular, row_ephemeral = False,
            power_state = 0\<rparr>"

text \<open>After a daemon restart: two instances flagged as having been running, none
  running.\<close>

definition world_restart :: Daemon where
  "world_restart = \<lparr>db = [row_a, row_b, row_c], running = [], storage = [], fstype = ''ext4'',
                     trace = []\<rparr>"

text \<open>Before a daemon shutdown: \<open>a\<close> and \<open>b\<close> running, \<open>c\<close> stopped, no flag set.\<close>

definition world_shutdown :: Daemon where
  "world_shutdown = \<lparr>db = [row_a\<lparr>power_state := 0\<rparr>, row_b\<lparr>power_state := 0\<rparr>, row_c],
                      running = [''a'', ''b''], storage = [], fstype = ''ext4'', trace = []\<rparr>"

text \<open>An instance \<open>c1\<close> with two snapshots, and an unrelated snapshot of \<open>c10\<close>; the
  directories exist on a btrfs file system.\<close>

definition VarPath_lxd :: "string \<Rightarrow> string \<Rightarrow> string" where
  "VarPath_lxd a b = ''/var/lib/lxd/'' @ a @ ''/'' @ b"

definition world_snapshots :: Daemon where
  "world_snapshots =
     \<lparr>db = [\<lparr>row_id = 1, row_name = ''c1'', row_type = cTypeRegular, row_ephemeral = False,
               power_state = 0\<rparr>,
            \<lparr>row_id = 2, row_name = ''c1/s0'', row_type = cTypeSnapshot, row_ephemeral = False,
               power_state = 0\<rparr>,
            \<lparr>row_id = 3, row_name = ''c1/s1'', row_type = cTypeSnapshot, row_ephemeral = False,
               power_state = 0\<rparr>,
            \<lparr>row_id = 4, row_name = ''c10/s0'', row_type = cTypeSnapshot, row_ephemeral = False,
               power_state = 0\<rparr>],
      running = [],
      storage = [''/var/lib/lxd/containers/c1'', ''/var/lib/lxd/snapshots/c1/s0'',
                 ''/var/lib/lxd/snapshots/c1/s0/rootfs'', ''/var/lib/lxd/snapshots/c1/s1'',
                 ''/var/lib/lxd/snapshots/c10/s0''],
      fstype = ''btrfs'',
      trace = []\<rparr>"

definition fail_delete_3 :: faults where
  "fail_delete_3 c = (c = DbExec (DeleteById 3))"

subsection \<open>containerWatchEphemeral and containersWatch\<close>














definition env_never :: "Daemon \<Rightarrow> Daemon option" where
  "env_never d = None"

definition fail_handle_e :: faults where
  "fail_handle_e c = (c = LXContainerGet ''e'')"

subsection \<open>containersShutdown with its goroutines\<close>

text \<open>
  The threads of \<^verbatim>\<open>containersShutdown\<close>, for the question of which shutdown attempts can
  be in flight together. The main thread is at the head of the \<^verbatim>\<open>for\<close> loop, at
  \<^verbatim>\<open>wg.Wait()\<close> (the last statement of the loop body), or has returned. A goroutine is
  about to call \<^verbatim>\<open>container.Shutdown\<close>, \<^verbatim>\<open>container.Stop\<close> or \<^verbatim>\<open>wg.Done\<close>. \<^verbatim>\<open>wg.Add(1)\<close>
  and \<^verbatim>\<open>wg.Done()\<close> change the counter of the \<^verbatim>\<open>sync.WaitGroup\<close>; \<^verbatim>\<open>wg.Wait()\<close> returns
  only when the counter is 0. Any thread that can take a step may take it.
\<close>

datatype main_pc = AtLoop "string list" | AtWait "string list" | Finished "error option"

datatype g_pc = GShutdown | GStop | GDone

record prog =
  pc :: main_pc
  wg :: nat
  goroutines :: "(string \<times> g_pc) list"
  world :: Daemon

definition main_step :: "faults \<Rightarrow> prog \<Rightarrow> prog list" where
  "main_step fails p =
     (case pc p of
        AtLoop [] \<Rightarrow> [p\<lparr>pc := Finished None\<rparr>]
      | AtLoop (r # rs) \<Rightarrow>
          [case newLxdContainer fails r (world p) of
             (Some err, d1) \<Rightarrow> p\<lparr>pc := Finished (Some err), world := d1\<rparr>
           | (None, d1) \<Rightarrow>
               (case container_IsRunning r d1 of
                  (True, d2) \<Rightarrow>
                    (case dbExec fails (SetPowerState r) d2 of
                       (Some err, d3) \<Rightarrow> p\<lparr>pc := Finished (Some err), world := d3\<rparr>
                     | (None, d3) \<Rightarrow>
                         p\<lparr>pc := AtWait rs, wg := wg p + 1,
                           goroutines := goroutines p @ [(r, GShutdown)], world := d3\<rparr>)
                | (False, d2) \<Rightarrow> p\<lparr>pc := AtWait rs, world := d2\<rparr>)]
      | AtWait rs \<Rightarrow> (if wg p = 0 then [p\<lparr>pc := AtLoop rs\<rparr>] else [])
      | Finished res \<Rightarrow> [])"

definition goroutine_step :: "faults \<Rightarrow> prog \<Rightarrow> nat \<Rightarrow> prog" where
  "goroutine_step fails p i =
     (case goroutines p ! i of
        (r, GShutdown) \<Rightarrow>
          p\<lparr>goroutines := (goroutines p)[i := (r, GStop)],
            world := snd (container_Shutdown fails r 30 (world p))\<rparr>
      | (r, GStop) \<Rightarrow>
          p\<lparr>goroutines := (goroutines p)[i := (r, GDone)],
            world := snd (container_Stop fails r (world p))\<rparr>
      | (r, GDone) \<Rightarrow>
          p\<lparr>goroutines := take i (goroutines p) @ drop (Suc i) (goroutines p),
            wg := wg p - 1\<rparr>)"

definition successors :: "faults \<Rightarrow> prog \<Rightarrow> prog list" where
  "successors fails p =
     main_step fails p @ map (goroutine_step fails p) [0 ..< length (goroutines p)]"

inductive reachable :: "faults \<Rightarrow> prog \<Rightarrow> prog \<Rightarrow> bool" for fails :: faults and p0 :: prog where
  reach_start: "reachable fails p0 p0"
| reach_step: "reachable fails p0 p \<Longrightarrow> p' \<in> set (successors fails p) \<Longrightarrow> reachable fails p0 p'"

text \<open>The program when the loop is entered with the listed instances.\<close>

definition enter_loop :: "string list \<Rightarrow> Daemon \<Rightarrow> prog" where
  "enter_loop results d = \<lparr>pc = AtLoop results, wg = 0, goroutines = [], world = d\<rparr>"

text \<open>What the sequential reading of the loop computes from a state of the program:
  the goroutine, if one is live, is run to its end and the loop goes on.\<close>

definition rest :: "faults \<Rightarrow> prog \<Rightarrow> error option \<times> Daemon" where
  "rest fails p =
     (case pc p of
        AtLoop rs \<Rightarrow> shutdown_loop fails rs (world p)
      | AtWait rs \<Rightarrow>
          (case goroutines p of
             [] \<Rightarrow> shutdown_loop fails rs (world p)
           | (r, GShutdown) # gs \<Rightarrow> shutdown_loop fails rs (shutdown_goroutine fails r (world p))
           | (r, GStop) # gs \<Rightarrow> shutdown_loop fails rs (snd (container_Stop fails r (world p)))
           | (r, GDone) # gs \<Rightarrow> shutdown_loop fails rs (world p))
      | Finished res \<Rightarrow> (res, world p))"

text \<open>The invariant: the counter counts the live goroutines, there is at most one, and
  none while the main thread is at the head of the loop or has returned.\<close>

definition joined :: "prog \<Rightarrow> bool" where
  "joined p =
     (wg p = length (goroutines p) \<and> length (goroutines p) \<le> 1
      \<and> (case pc p of AtWait rs \<Rightarrow> True | other \<Rightarrow> goroutines p = []))"

text \<open>The state of the example right after the goroutine for \<open>a\<close> has been started.\<close>

definition prog_a_started :: prog where
  "prog_a_started =
     \<lparr>pc = AtWait [''b'', ''c''], wg = 1, goroutines = [(''a'', GShutdown)],
      world = snd (dbExec no_faults (SetPowerState ''a'')
                (snd (container_IsRunning ''a''
                   (snd (newLxdContainer no_faults ''a'' world_shutdown)))))\<rparr>"

text \<open>A state in which the attempts on \<open>a\<close> and \<open>b\<close> would be in flight together.\<close>

definition prog_both :: prog where
  "prog_both =
     \<lparr>pc = AtWait [''c''], wg = 2, goroutines = [(''a'', GShutdown), (''b'', GShutdown)],
      world = world_shutdown\<rparr>"

section \<open>The session transport\<close>

text \<open>
  The source declares the session (\<^verbatim>\<open>type execWs struct\<close>) with its connections
  \<^verbatim>\<open>conns map[int]*websocket.Conn\<close>, its per-channel secrets \<^verbatim>\<open>fds map[int]string\<close>, the
  two signals \<^verbatim>\<open>allConnected\<close> and \<^verbatim>\<open>controlConnected\<close> and the flag \<^verbatim>\<open>interactive\<close>.
  The record keeps these fields (the command, the container handle, the attach options
  and the result channel play no part in the barrier) and adds the bytes relayed so
  far. A signal is a flag that is raised once.
\<close>

record execWs =
  interactive :: bool
  fds :: "(int \<times> string) list"
  conns :: "int \<rightharpoonup> nat"
  allConnected :: bool
  controlConnected :: bool
  relayed :: "(int \<times> 8 word) list"

text \<open>
  Modelled from the spec: the methods of the session (creation, connection, relay) are
  not among the sources. A session has one control channel (logical index \<open>-1\<close>) and
  either one combined data channel (interactive) or three (stdin, stdout, stderr);
  each channel is identified by a secret handed to the caller. The caller connects a
  transport-level connection presenting a secret, and the session records the
  connection under the channel's logical index; a connection with an unknown secret is
  refused. The barrier over all required channels is the logical AND of their being
  connected, with a separate barrier for the control channel alone; the relay is
  released only once the barrier is satisfied.
\<close>

definition required :: "execWs \<Rightarrow> int list" where
  "required s = map fst (fds s)"

definition newExecWs :: "bool \<Rightarrow> (int \<Rightarrow> string) \<Rightarrow> execWs" where
  "newExecWs is_interactive secret =
     \<lparr>interactive = is_interactive,
      fds = map (\<lambda>i. (i, secret i)) (if is_interactive then [- 1, 0] else [- 1, 0, 1, 2]),
      conns = Map.empty,
      allConnected = False,
      controlConnected = False,
      relayed = []\<rparr>"

datatype session_event = Connect string nat | Relay int "8 word"

definition connect :: "execWs \<Rightarrow> string \<Rightarrow> nat \<Rightarrow> execWs option" where
  "connect s secret conn =
     (case find (\<lambda>(i, sec). sec = secret) (fds s) of
        None \<Rightarrow> None
      | Some (i, sec) \<Rightarrow>
          Some (s\<lparr>conns := (conns s)(i \<mapsto> conn),
                  controlConnected := (controlConnected s \<or> i = - 1),
                  allConnected :=
                    (allConnected s
                     \<or> list_all (\<lambda>j. ((conns s)(i \<mapsto> conn)) j \<noteq> None) (required s))\<rparr>))"

definition relay :: "execWs \<Rightarrow> int \<Rightarrow> 8 word \<Rightarrow> execWs option" where
  "relay s i b =
     (if allConnected s \<and> i \<in> set (required s) then Some (s\<lparr>relayed := relayed s @ [(i, b)]\<rparr>)
      else None)"

fun session_step :: "execWs \<Rightarrow> session_event \<Rightarrow> execWs option" where
  "session_step s (Connect secret conn) = connect s secret conn"
| "session_step s (Relay i b) = relay s i b"

text \<open>A run of events; \<open>None\<close> when an event is refused (an unknown secret, a relay the
  barrier does not allow).\<close>

fun session_run :: "execWs \<Rightarrow> session_event list \<Rightarrow> execWs option" where
  "session_run s [] = Some s"
| "session_run s (e # es) =
     (case session_step s e of None \<Rightarrow> None | Some s' \<Rightarrow> session_run s' es)"

definition all_connected :: "execWs \<Rightarrow> bool" where
  "all_connected s = list_all (\<lambda>j. conns s j \<noteq> None) (required s)"

text \<open>Example: the secrets of a session's channels.\<close>

fun example_secret :: "int \<Rightarrow> string" where
  "example_secret i =
     (if i = - 1 then ''ctl'' else if i = 0 then ''in'' else if i = 1 then ''out'' else ''err'')"

text \<open>The invariant of the barrier: the signal is raised only when every required
  channel is connected, and bytes have been relayed only after the signal.\<close>

definition barrier_inv :: "execWs \<Rightarrow> bool" where
  "barrier_inv s = ((allConnected s \<longrightarrow> all_connected s) \<and> (relayed s \<noteq> [] \<longrightarrow> allConnected s))"

section \<open>Properties of the descriptor translation\<close>

subsection \<open>Timestamps\<close>

lemma time_Unix_not_zeroTime: "time_Unix v \<noteq> zeroTime"
  by (simp add: time_Unix_def unixTime_def zeroTime_def)

lemma Time_Unix_time_Unix: "Time_Unix (time_Unix v) = v"
  by (simp add: Time_Unix_def time_Unix_def unixTime_def Time_sec_def hasMonotonic_def
      internalToUnix_def)

lemma args_CreationDate:
  "CreationDate (snapshotProtobufToInstanceArgs d p c snap) =
     (if GetCreationDate snap \<noteq> 0 then time_Unix (GetCreationDate snap) else zeroTime)"
  by (simp add: snapshotProtobufToInstanceArgs_def Let_def)

lemma args_LastUsedDate:
  "LastUsedDate (snapshotProtobufToInstanceArgs d p c snap) =
     (if GetLastUsedDate snap \<noteq> 0 then time_Unix (GetLastUsedDate snap) else zeroTime)"
  by (simp add: snapshotProtobufToInstanceArgs_def Let_def)

text \<open>
  Claim C1. For every descriptor, the creation timestamp of the produced record is the
  zero value of \<^verbatim>\<open>time.Time\<close> exactly when the descriptor's creation date is 0, and
  likewise for the last-used timestamp; a non-zero value \<open>v\<close> becomes
  \<^verbatim>\<open>time.Unix(v, 0)\<close>, whose epoch second (\<^verbatim>\<open>Time.Unix()\<close>) is \<open>v\<close> again.
\<close>

theorem C1_timestamps:
  "(CreationDate (snapshotProtobufToInstanceArgs d p c snap) = zeroTime
      \<longleftrightarrow> GetCreationDate snap = 0)
   \<and> (LastUsedDate (snapshotProtobufToInstanceArgs d p c snap) = zeroTime
      \<longleftrightarrow> GetLastUsedDate snap = 0)
   \<and> (GetCreationDate snap \<noteq> 0 \<longrightarrow>
        CreationDate (snapshotProtobufToInstanceArgs d p c snap) = time_Unix (GetCreationDate snap)
        \<and> Time_Unix (CreationDate (snapshotProtobufToInstanceArgs d p c snap)) = GetCreationDate snap)
   \<and> (GetLastUsedDate snap \<noteq> 0 \<longrightarrow>
        LastUsedDate (snapshotProtobufToInstanceArgs d p c snap) = time_Unix (GetLastUsedDate snap)
        \<and> Time_Unix (LastUsedDate (snapshotProtobufToInstanceArgs d p c snap)) = GetLastUsedDate snap)"
  by (simp add: args_CreationDate args_LastUsedDate time_Unix_not_zeroTime Time_Unix_time_Unix)

theorem C1_timestamps_witness:
  "GetCreationDate snap_used \<noteq> 0 \<and> GetLastUsedDate snap_used \<noteq> 0
   \<and> CreationDate (snapshotProtobufToInstanceArgs ''/'' ''default'' ''web1'' snap_used)
       = time_Unix 1700000000
   \<and> Time_Unix (CreationDate (snapshotProtobufToInstanceArgs ''/'' ''default'' ''web1'' snap_used))
       = 1700000000
   \<and> LastUsedDate (snapshotProtobufToInstanceArgs ''/'' ''default'' ''web1'' snap_used)
       = time_Unix 1700000100
   \<and> CreationDate (snapshotProtobufToInstanceArgs ''/'' ''default'' ''web1'' snap_daily)
       \<noteq> zeroTime
   \<and> LastUsedDate (snapshotProtobufToInstanceArgs ''/'' ''default'' ''web1'' snap_daily)
       = zeroTime"
proof -
  have used: "GetCreationDate snap_used = 1700000000" "GetLastUsedDate snap_used = 1700000100"
    by (simp_all add: snap_used_def snap_daily_def)
  have daily: "GetCreationDate snap_daily = 1700000000" "GetLastUsedDate snap_daily = 0"
    by (simp_all add: snap_daily_def)
  show ?thesis
    using C1_timestamps [of "''/''" "''default''" "''web1''" snap_used]
          C1_timestamps [of "''/''" "''default''" "''web1''" snap_daily]
    by (simp add: used daily Time_Unix_time_Unix time_Unix_not_zeroTime)
qed

text \<open>
  A remark on \<^verbatim>\<open>Time.IsZero()\<close>, which compares the instant and not the struct: the
  one non-zero creation date whose translation answers \<^verbatim>\<open>IsZero()\<close> with true is
  \<open>- unixToInternal\<close>, the epoch second of January 1 of year 1. The timestamp is
  assigned there all the same (its location is \<^verbatim>\<open>Local\<close>, not nil).
\<close>

lemma time_Unix_IsZero_iff: "Time_IsZero (time_Unix v) \<longleftrightarrow> v = - unixToInternal"
  by (simp add: Time_IsZero_def time_Unix_def unixTime_def Time_sec_def Time_nsec_def
      hasMonotonic_def nsecMask_def eq_neg_iff_add_eq_0)

subsection \<open>Name, configuration and devices\<close>

lemma config_loop_map_of: "config_loop ents m = m ++ map_of (rev (config_pairs ents))"
  by (induction ents arbitrary: m) (simp_all add: config_pairs_def)

lemma devices_loop_map_of: "devices_loop ents m = m ++ map_of (rev (device_pairs ents))"
  by (induction ents arbitrary: m) (simp_all add: device_pairs_def config_loop_map_of)

lemma map_of_rev_last:
  assumes "k \<notin> fst ` set ys"
  shows "map_of (rev (xs @ (k, v) # ys)) k = Some v"
proof -
  have "map_of (rev ys) k = None"
    using assms by (simp add: map_of_eq_None_iff)
  then show ?thesis
    by (simp add: map_add_def)
qed

lemma config_last_wins:
  assumes "ents = xs @ ent # ys" and "GetKey ent \<notin> GetKey ` set ys"
  shows "map_of (rev (config_pairs ents)) (GetKey ent) = Some (GetValue ent)"
proof -
  have "config_pairs ents = config_pairs xs @ (GetKey ent, GetValue ent) # config_pairs ys"
    using assms(1) by (simp add: config_pairs_def)
  moreover have "GetKey ent \<notin> fst ` set (config_pairs ys)"
    using assms(2) by (auto simp: config_pairs_def)
  ultimately show ?thesis
    using map_of_rev_last by metis
qed

lemma config_dom: "dom (map_of (rev (config_pairs ents))) = GetKey ` set ents"
  by (auto simp: dom_map_of_conv_image_fst config_pairs_def image_iff)

lemma device_last_wins:
  assumes "ents = xs @ ent # ys" and "dev_GetName ent \<notin> dev_GetName ` set ys"
  shows "map_of (rev (device_pairs ents)) (dev_GetName ent)
           = Some (map_of (rev (config_pairs (dev_Config ent))))"
proof -
  have "device_pairs ents =
          device_pairs xs
          @ (dev_GetName ent, map_of (rev (config_pairs (dev_Config ent)))) # device_pairs ys"
    using assms(1) by (simp add: device_pairs_def)
  moreover have "dev_GetName ent \<notin> fst ` set (device_pairs ys)"
    using assms(2) by (auto simp: device_pairs_def)
  ultimately show ?thesis
    using map_of_rev_last by metis
qed

lemma device_dom: "dom (map_of (rev (device_pairs ents))) = dev_GetName ` set ents"
  by (auto simp: dom_map_of_conv_image_fst device_pairs_def image_iff)

lemma args_Config:
  "Config (snapshotProtobufToInstanceArgs d p c snap)
     = map_of (rev (config_pairs (LocalConfig snap)))"
  by (simp add: snapshotProtobufToInstanceArgs_def Let_def config_loop_map_of)

lemma args_Devices:
  "Devices (snapshotProtobufToInstanceArgs d p c snap)
     = map_of (rev (device_pairs (LocalDevices snap)))"
  by (simp add: snapshotProtobufToInstanceArgs_def Let_def devices_loop_map_of)

lemma args_Name:
  "Name (snapshotProtobufToInstanceArgs d p c snap) = c @ d @ GetName snap"
  by (simp add: snapshotProtobufToInstanceArgs_def Let_def)

text \<open>
  Claim C2, as stated, at a descriptor that repeats a key: the entry
  \<open>limits.cpu = 2\<close> of \<open>snap_dup\<close> is followed by \<open>limits.cpu = 4\<close>, and the produced
  configuration holds \<open>4\<close> under the key, so the first entry is not copied
  value-for-value.
\<close>

theorem C2_counterexample:
  "\<lparr>GetKey = ''limits.cpu'', GetValue = ''2''\<rparr> \<in> set (LocalConfig snap_dup)
   \<and> Config (snapshotProtobufToInstanceArgs ''/'' ''default'' ''web1'' snap_dup) ''limits.cpu''
       = Some ''4''
   \<and> Config (snapshotProtobufToInstanceArgs ''/'' ''default'' ''web1'' snap_dup) ''limits.cpu''
       \<noteq> Some ''2''"
  by (simp add: snapshotProtobufToInstanceArgs_def snap_dup_def snap_daily_def Let_def)

text \<open>
  Claim C2, amended. The name of the produced record is the parent name, the delimiter
  and the snapshot name, concatenated. The keys of its configuration are exactly the
  keys of the descriptor's local config entries, and every entry that no later entry
  with the same key follows is copied key-for-key and value-for-value (the last entry
  of a key wins). The same holds for the devices by device name, and inside each copied
  device for its properties.
\<close>

theorem C2_name_config_devices:
  "Name (snapshotProtobufToInstanceArgs d p c snap) = c @ d @ GetName snap
   \<and> dom (Config (snapshotProtobufToInstanceArgs d p c snap)) = GetKey ` set (LocalConfig snap)
   \<and> (\<forall>xs ent ys. LocalConfig snap = xs @ ent # ys \<and> GetKey ent \<notin> GetKey ` set ys
        \<longrightarrow> Config (snapshotProtobufToInstanceArgs d p c snap) (GetKey ent) = Some (GetValue ent))
   \<and> dom (Devices (snapshotProtobufToInstanceArgs d p c snap))
       = dev_GetName ` set (LocalDevices snap)
   \<and> (\<forall>xs dev ys. LocalDevices snap = xs @ dev # ys \<and> dev_GetName dev \<notin> dev_GetName ` set ys
        \<longrightarrow> (\<exists>props. Devices (snapshotProtobufToInstanceArgs d p c snap) (dev_GetName dev)
                      = Some props
              \<and> dom props = GetKey ` set (dev_Config dev)
              \<and> (\<forall>ps prop qs. dev_Config dev = ps @ prop # qs \<and> GetKey prop \<notin> GetKey ` set qs
                    \<longrightarrow> props (GetKey prop) = Some (GetValue prop))))"
  unfolding args_Name args_Config args_Devices config_dom
  by (auto simp: device_dom device_last_wins config_dom intro: config_last_wins)

theorem C2_name_config_devices_witness:
  "LocalConfig snap_dup
     = [\<lparr>GetKey = ''limits.cpu'', GetValue = ''2''\<rparr>]
       @ \<lparr>GetKey = ''limits.cpu'', GetValue = ''4''\<rparr> # []
   \<and> Name (snapshotProtobufToInstanceArgs ''/'' ''default'' ''web1'' snap_dup) = ''web1/daily''
   \<and> Config (snapshotProtobufToInstanceArgs ''/'' ''default'' ''web1'' snap_dup) ''limits.cpu''
       = Some ''4''
   \<and> (\<exists>props. Devices (snapshotProtobufToInstanceArgs ''/'' ''default'' ''web1'' snap_dup) ''eth0''
                  = Some props
          \<and> dom props = {''type'', ''nictype''}
          \<and> props ''nictype'' = Some ''bridged'')"
proof -
  let ?args = "snapshotProtobufToInstanceArgs ''/'' ''default'' ''web1'' snap_dup"
  let ?e1 = "\<lparr>GetKey = ''limits.cpu'', GetValue = ''2''\<rparr>"
  let ?e2 = "\<lparr>GetKey = ''limits.cpu'', GetValue = ''4''\<rparr>"
  let ?p1 = "\<lparr>GetKey = ''type'', GetValue = ''nic''\<rparr>"
  let ?p2 = "\<lparr>GetKey = ''nictype'', GetValue = ''bridged''\<rparr>"
  let ?dev = "\<lparr>dev_GetName = ''eth0'', dev_Config = [?p1, ?p2]\<rparr>"
  note t = C2_name_config_devices [of "''/''" "''default''" "''web1''" snap_dup]
  note t_name = t [THEN conjunct1]
  note t_conf = t [THEN conjunct2, THEN conjunct2, THEN conjunct1, rule_format]
  note t_devs = t [THEN conjunct2, THEN conjunct2, THEN conjunct2, THEN conjunct2, rule_format]
  have cfg: "LocalConfig snap_dup = [?e1] @ ?e2 # []"
    by (simp add: snap_dup_def)
  have dvs: "LocalDevices snap_dup = [] @ ?dev # []"
    by (simp add: snap_dup_def snap_daily_def)
  have name: "Name ?args = ''web1/daily''"
    using t_name by (simp add: snap_dup_def snap_daily_def)
  have "Config ?args (GetKey ?e2) = Some (GetValue ?e2)"
    by (rule t_conf [of "[?e1]" ?e2 "[]"]) (simp add: cfg)
  then have conf: "Config ?args ''limits.cpu'' = Some ''4''"
    by simp
  have "\<exists>props. Devices ?args (dev_GetName ?dev) = Some props
          \<and> dom props = GetKey ` set (dev_Config ?dev)
          \<and> (\<forall>ps prop qs. dev_Config ?dev = ps @ prop # qs \<and> GetKey prop \<notin> GetKey ` set qs
                \<longrightarrow> props (GetKey prop) = Some (GetValue prop))"
    by (rule t_devs [of "[]" ?dev "[]"]) (simp add: dvs)
  then obtain props where props:
    "Devices ?args ''eth0'' = Some props"
    "dom props = GetKey ` set [?p1, ?p2]"
    "\<forall>ps prop qs. [?p1, ?p2] = ps @ prop # qs \<and> GetKey prop \<notin> GetKey ` set qs
        \<longrightarrow> props (GetKey prop) = Some (GetValue prop)"
    by auto
  have "props (GetKey ?p2) = Some (GetValue ?p2)"
    by (rule props(3) [rule_format, of "[?p1]" ?p2 "[]"]) simp
  then have "props ''nictype'' = Some ''bridged''"
    by simp
  moreover have "dom props = {''type'', ''nictype''}"
    using props(2) by simp
  ultimately show ?thesis
    using cfg name conf props(1) by blast
qed

section \<open>Properties of the lifecycle supervisor\<close>

subsection \<open>What the collaborators' calls do to the state\<close>

lemma newLxdContainer_effect:
  "fst (newLxdContainer f r d) = (if f (NewLxdContainer r) then Some (Failed (NewLxdContainer r)) else None)"
  "snd (newLxdContainer f r d) = record_call (NewLxdContainer r) d"
  by (simp_all add: newLxdContainer_def)

lemma record_call_simps:
  "trace (record_call c d) = trace d @ [c]"
  "db (record_call c d) = db d"
  "running (record_call c d) = running d"
  "storage (record_call c d) = storage d"
  "fstype (record_call c d) = fstype d"
  by (simp_all add: record_call_def)

lemma container_Start_effect:
  "trace (snd (container_Start f r d)) = trace d @ [Start r]"
  "db (snd (container_Start f r d)) = db d"
  by (simp_all add: container_Start_def record_call_simps)

lemma container_Shutdown_effect:
  "trace (snd (container_Shutdown f r t d)) = trace d @ [Shutdown r t]"
  "db (snd (container_Shutdown f r t d)) = db d"
  by (simp_all add: container_Shutdown_def record_call_simps)

lemma container_Stop_effect:
  "trace (snd (container_Stop f r d)) = trace d @ [Stop r]"
  "db (snd (container_Stop f r d)) = db d"
  by (simp_all add: container_Stop_def record_call_simps)

lemma shutdown_goroutine_effect:
  "trace (shutdown_goroutine f r d) = trace d @ [Shutdown r 30, Stop r]"
  "db (shutdown_goroutine f r d) = db d"
  by (simp_all add: shutdown_goroutine_def container_Stop_effect container_Shutdown_effect)

lemma dbExec_effect:
  "fst (dbExec f s d) = (if f (DbExec s) then Some (Failed (DbExec s)) else None)"
  "trace (snd (dbExec f s d)) = trace d @ [DbExec s]"
  "db (snd (dbExec f s d)) = (if f (DbExec s) then db d else run_stmt s (db d))"
  "running (snd (dbExec f s d)) = running d"
  by (simp_all add: dbExec_def record_call_simps)

lemma emitted_append: "trace d' = trace d @ e \<Longrightarrow> emitted d d' = e"
  by (simp add: emitted_def)

subsection \<open>The restart loop\<close>

text \<open>The loop stops at the first instance that cannot be loaded; until then every
  instance is loaded and started, whatever \<^verbatim>\<open>Start()\<close> returns.\<close>

lemma restart_loop_trace:
  "trace (snd (restart_loop f rs d)) = trace d @ restart_calls f rs"
  by (induction rs arbitrary: d)
     (simp_all add: newLxdContainer_def record_call_simps container_Start_effect)

lemma restart_calls_shape: "list_all is_load_or_start (restart_calls f rs)"
  by (induction rs) simp_all

lemma restart_calls_started:
  "started (restart_calls f rs) = takeWhile (\<lambda>r. \<not> f (NewLxdContainer r)) rs"
  by (induction rs) simp_all

lemma restart_calls_loaded:
  "\<forall>r \<in> set rs. \<not> f (NewLxdContainer r) \<Longrightarrow> loaded (restart_calls f rs) = rs"
  by (induction rs) simp_all


lemma restart_loop_db: "db (snd (restart_loop f rs d)) = db d"
proof (induction rs arbitrary: d)
  case Nil
  then show ?case by simp
next
  case (Cons r rs)
  then show ?case
    by (simp add: newLxdContainer_def record_call_simps container_Start_effect)
qed



subsection \<open>The shutdown loop\<close>

lemma shutdown_loop_trace:
  "\<exists>e. trace (snd (shutdown_loop f rs d)) = trace d @ e \<and> shutdown_trace f e"
proof (induction rs arbitrary: d)
  case Nil
  show ?case by (simp add: st_done)
next
  case (Cons r rs)
  let ?d1 = "record_call (NewLxdContainer r) d"
  show ?case
  proof (cases "f (NewLxdContainer r)")
    case True
    then show ?thesis
      by (simp add: newLxdContainer_def record_call_simps st_load_failed)
  next
    case load: False
    show ?thesis
    proof (cases "r \<in> set (running d)")
      case False
      let ?d2 = "record_call (IsRunning r False) ?d1"
      have step: "shutdown_loop f (r # rs) d = shutdown_loop f rs ?d2"
        using load False by (simp add: newLxdContainer_def container_IsRunning_def record_call_simps)
      from Cons.IH [of ?d2] obtain e where
        e: "trace (snd (shutdown_loop f rs ?d2)) = trace ?d2 @ e" "shutdown_trace f e"
        by blast
      have "trace (snd (shutdown_loop f rs ?d2))
              = trace d @ NewLxdContainer r # IsRunning r False # e"
        using e(1) by (simp add: record_call_simps)
      moreover have "shutdown_trace f (NewLxdContainer r # IsRunning r False # e)"
        using load e(2) by (rule st_not_running)
      ultimately show ?thesis
        unfolding step by blast
    next
      case True
      let ?d2 = "record_call (IsRunning r True) ?d1"
      show ?thesis
      proof (cases "f (DbExec (SetPowerState r))")
        case upd: True
        have "trace (snd (shutdown_loop f (r # rs) d))
                = trace d @ [NewLxdContainer r, IsRunning r True, DbExec (SetPowerState r)]"
          using load True upd
          by (simp add: newLxdContainer_def container_IsRunning_def dbExec_def record_call_simps)
        moreover have
          "shutdown_trace f [NewLxdContainer r, IsRunning r True, DbExec (SetPowerState r)]"
          using load upd by (rule st_update_failed)
        ultimately show ?thesis by blast
      next
        case upd: False
        let ?d3 = "snd (dbExec f (SetPowerState r) ?d2)"
        let ?d4 = "shutdown_goroutine f r ?d3"
        have step: "shutdown_loop f (r # rs) d = shutdown_loop f rs ?d4"
          using load True upd
          by (simp add: newLxdContainer_def container_IsRunning_def dbExec_def record_call_simps)
        from Cons.IH [of ?d4] obtain e where
          e: "trace (snd (shutdown_loop f rs ?d4)) = trace ?d4 @ e" "shutdown_trace f e"
          by blast
        have "trace ?d4 = trace d @ [NewLxdContainer r, IsRunning r True,
                DbExec (SetPowerState r), Shutdown r 30, Stop r]"
          by (simp add: shutdown_goroutine_effect dbExec_effect record_call_simps)
        then have "trace (snd (shutdown_loop f rs ?d4))
                = trace d @ NewLxdContainer r # IsRunning r True # DbExec (SetPowerState r)
                    # Shutdown r 30 # Stop r # e"
          using e(1) by simp
        moreover have "shutdown_trace f (NewLxdContainer r # IsRunning r True
                    # DbExec (SetPowerState r) # Shutdown r 30 # Stop r # e)"
          using load upd e(2) by (rule st_shut)
        ultimately show ?thesis
          unfolding step by blast
      qed
    qed
  qed
qed

lemma shutdown_trace_Shutdown_then_Stop:
  "shutdown_trace f t \<Longrightarrow> t = pre @ Shutdown r x # post
     \<Longrightarrow> x = 30 \<and> (\<exists>post'. post = Stop r # post')"
proof (induction arbitrary: pre rule: shutdown_trace.induct)
  case st_done
  then show ?case by simp
next
  case (st_load_failed r')
  then show ?case by (auto simp: Cons_eq_append_conv)
next
  case (st_not_running r' t)
  then show ?case by (auto simp: Cons_eq_append_conv)
next
  case (st_update_failed r')
  then show ?case by (auto simp: Cons_eq_append_conv)
next
  case (st_shut r' t)
  then show ?case by (auto simp: Cons_eq_append_conv)
qed


lemma shutdown_loop_emitted:
  "trace (snd (shutdown_loop f rs d)) = trace d @ emitted d (snd (shutdown_loop f rs d))"
  "shutdown_trace f (emitted d (snd (shutdown_loop f rs d)))"
proof -
  obtain e where e: "trace (snd (shutdown_loop f rs d)) = trace d @ e" "shutdown_trace f e"
    using shutdown_loop_trace by blast
  then have "emitted d (snd (shutdown_loop f rs d)) = e"
    by (simp add: emitted_def)
  with e show "trace (snd (shutdown_loop f rs d)) = trace d @ emitted d (snd (shutdown_loop f rs d))"
    and "shutdown_trace f (emitted d (snd (shutdown_loop f rs d)))"
    by simp_all
qed

text \<open>One iteration of the loop, spelled out.\<close>

lemma shutdown_loop_Cons:
  "shutdown_loop f (r # rs) d =
     (if f (NewLxdContainer r)
      then (Some (Failed (NewLxdContainer r)), d\<lparr>trace := trace d @ [NewLxdContainer r]\<rparr>)
      else if r \<notin> set (running d)
      then shutdown_loop f rs (d\<lparr>trace := trace d @ [NewLxdContainer r, IsRunning r False]\<rparr>)
      else if f (DbExec (SetPowerState r))
      then (Some (Failed (DbExec (SetPowerState r))),
            d\<lparr>trace := trace d @ [NewLxdContainer r, IsRunning r True, DbExec (SetPowerState r)]\<rparr>)
      else shutdown_loop f rs
             (d\<lparr>db := run_stmt (SetPowerState r) (db d),
                running := (if f (Shutdown r 30) \<and> f (Stop r) then running d
                            else removeAll r (running d)),
                trace := trace d @ [NewLxdContainer r, IsRunning r True, DbExec (SetPowerState r),
                                    Shutdown r 30, Stop r]\<rparr>))"
  by (simp add: newLxdContainer_def container_IsRunning_def dbExec_def record_call_def
      shutdown_goroutine_def container_Shutdown_def container_Stop_def)

lemma emitted_step:
  assumes "trace d1 = trace d @ cs"
  shows "emitted d (snd (shutdown_loop f rs d1)) = cs @ emitted d1 (snd (shutdown_loop f rs d1))"
proof -
  have "trace (snd (shutdown_loop f rs d1)) = trace d @ cs @ emitted d1 (snd (shutdown_loop f rs d1))"
    using shutdown_loop_emitted(1) [of f rs d1] assms by simp
  then show ?thesis
    by (simp only: emitted_append append_assoc)
qed


lemma st_update_iff_observed:
  "shutdown_trace f t \<Longrightarrow> DbExec (SetPowerState r) \<in> set t \<longleftrightarrow> IsRunning r True \<in> set t"
  by (induction rule: shutdown_trace.induct) auto

lemma st_not_observed:
  "shutdown_trace f t \<Longrightarrow> IsRunning r True \<notin> set t
     \<Longrightarrow> Shutdown r x \<notin> set t \<and> Stop r \<notin> set t"
  by (induction rule: shutdown_trace.induct) auto

lemma st_Shutdown_iff:
  "shutdown_trace f t \<Longrightarrow>
     Shutdown r 30 \<in> set t
       \<longleftrightarrow> DbExec (SetPowerState r) \<in> set t \<and> \<not> f (DbExec (SetPowerState r))"
  by (induction rule: shutdown_trace.induct) auto

lemma st_only_SetPowerState:
  "shutdown_trace f t \<Longrightarrow> DbExec s \<in> set t \<Longrightarrow> \<exists>r. s = SetPowerState r"
  by (induction rule: shutdown_trace.induct) auto

lemma st_before_Shutdown:
  "shutdown_trace f t \<Longrightarrow> t = pre @ Shutdown r x # post
     \<Longrightarrow> (\<exists>pre'. pre = pre' @ [IsRunning r True, DbExec (SetPowerState r)])
         \<and> \<not> f (DbExec (SetPowerState r))"
proof (induction arbitrary: pre rule: shutdown_trace.induct)
  case st_done
  then show ?case by simp
next
  case (st_load_failed r')
  then show ?case by (auto simp: Cons_eq_append_conv)
next
  case (st_not_running r' t)
  then show ?case by (auto simp: Cons_eq_append_conv)
next
  case (st_update_failed r')
  then show ?case by (auto simp: Cons_eq_append_conv)
next
  case (st_shut r' t)
  from st_shut.prems consider
      (here) "pre = [NewLxdContainer r', IsRunning r' True, DbExec (SetPowerState r')]" "r = r'"
    | (later) pre2 where
        "pre = NewLxdContainer r' # IsRunning r' True # DbExec (SetPowerState r')
                 # Shutdown r' 30 # Stop r' # pre2"
        "t = pre2 @ Shutdown r x # post"
    by (auto simp: Cons_eq_append_conv)
  then show ?case
  proof cases
    case here
    then show ?thesis
      using st_shut.hyps by simp
  next
    case later
    from st_shut.IH [OF later(2)] show ?thesis
      using later(1) by auto
  qed
qed

lemma st_after_observed:
  "shutdown_trace f t \<Longrightarrow> t = pre @ IsRunning r True # post
     \<Longrightarrow> (post = [DbExec (SetPowerState r)] \<and> f (DbExec (SetPowerState r)))
         \<or> (\<exists>post'. post = DbExec (SetPowerState r) # Shutdown r 30 # Stop r # post')"
proof (induction arbitrary: pre rule: shutdown_trace.induct)
  case st_done
  then show ?case by simp
next
  case (st_load_failed r')
  then show ?case by (auto simp: Cons_eq_append_conv)
next
  case (st_not_running r' t)
  then show ?case by (auto simp: Cons_eq_append_conv)
next
  case (st_update_failed r')
  then show ?case by (auto simp: Cons_eq_append_conv)
next
  case (st_shut r' t)
  then show ?case by (auto simp: Cons_eq_append_conv)
qed

lemma shutdown_loop_db:
  "db (snd (shutdown_loop f rs d)) =
     map (\<lambda>row. if Shutdown (row_name row) 30 \<in> set (emitted d (snd (shutdown_loop f rs d)))
                 then row\<lparr>power_state := 1\<rparr> else row) (db d)"
proof (induction rs arbitrary: d)
  case Nil
  show ?case by (simp add: emitted_def)
next
  case (Cons r rs)
  show ?case
  proof (cases "f (NewLxdContainer r)")
    case True
    then show ?thesis
      by (simp add: shutdown_loop_Cons emitted_def del: shutdown_loop.simps)
  next
    case load: False
    show ?thesis
    proof (cases "r \<in> set (running d)")
      case False
      let ?d1 = "d\<lparr>trace := trace d @ [NewLxdContainer r, IsRunning r False]\<rparr>"
      have step: "shutdown_loop f (r # rs) d = shutdown_loop f rs ?d1"
        using load False by (simp add: shutdown_loop_Cons del: shutdown_loop.simps)
      have em: "emitted d (snd (shutdown_loop f rs ?d1))
                  = [NewLxdContainer r, IsRunning r False] @ emitted ?d1 (snd (shutdown_loop f rs ?d1))"
        by (rule emitted_step) simp
      show ?thesis
        unfolding step em using Cons.IH [of ?d1] by simp
    next
      case True
      show ?thesis
      proof (cases "f (DbExec (SetPowerState r))")
        case upd: True
        then show ?thesis
          using load True by (simp add: shutdown_loop_Cons emitted_def del: shutdown_loop.simps)
      next
        case upd: False
        let ?d1 = "d\<lparr>db := run_stmt (SetPowerState r) (db d),
                running := (if f (Shutdown r 30) \<and> f (Stop r) then running d
                            else removeAll r (running d)),
                trace := trace d @ [NewLxdContainer r, IsRunning r True, DbExec (SetPowerState r),
                                    Shutdown r 30, Stop r]\<rparr>"
        have step: "shutdown_loop f (r # rs) d = shutdown_loop f rs ?d1"
          using load True upd by (simp add: shutdown_loop_Cons del: shutdown_loop.simps)
        have em: "emitted d (snd (shutdown_loop f rs ?d1))
                  = [NewLxdContainer r, IsRunning r True, DbExec (SetPowerState r),
                     Shutdown r 30, Stop r] @ emitted ?d1 (snd (shutdown_loop f rs ?d1))"
          by (rule emitted_step) simp
        show ?thesis
          unfolding step em using Cons.IH [of ?d1] by (simp cong: if_cong) 
      qed
    qed
  qed
qed

lemma shutdown_loop_observed_running:
  "IsRunning r True \<in> set (emitted d (snd (shutdown_loop f rs d))) \<Longrightarrow> r \<in> set (running d)"
proof (induction rs arbitrary: d)
  case Nil
  then show ?case by (simp add: emitted_def)
next
  case (Cons r' rs)
  show ?case
  proof (cases "f (NewLxdContainer r')")
    case True
    then show ?thesis
      using Cons.prems by (simp add: shutdown_loop_Cons emitted_def del: shutdown_loop.simps)
  next
    case load: False
    show ?thesis
    proof (cases "r' \<in> set (running d)")
      case False
      let ?d1 = "d\<lparr>trace := trace d @ [NewLxdContainer r', IsRunning r' False]\<rparr>"
      have step: "shutdown_loop f (r' # rs) d = shutdown_loop f rs ?d1"
        using load False by (simp add: shutdown_loop_Cons del: shutdown_loop.simps)
      have em: "emitted d (snd (shutdown_loop f rs ?d1))
                  = [NewLxdContainer r', IsRunning r' False] @ emitted ?d1 (snd (shutdown_loop f rs ?d1))"
        by (rule emitted_step) simp
      from Cons.prems have "IsRunning r True \<in> set (emitted ?d1 (snd (shutdown_loop f rs ?d1)))"
        unfolding step em by simp
      from Cons.IH [OF this] show ?thesis by simp
    next
      case True
      show ?thesis
      proof (cases "f (DbExec (SetPowerState r'))")
        case upd: True
        then show ?thesis
          using load True Cons.prems by (simp add: shutdown_loop_Cons emitted_def del: shutdown_loop.simps)
      next
        case upd: False
        let ?d1 = "d\<lparr>db := run_stmt (SetPowerState r') (db d),
                running := (if f (Shutdown r' 30) \<and> f (Stop r') then running d
                            else removeAll r' (running d)),
                trace := trace d @ [NewLxdContainer r', IsRunning r' True, DbExec (SetPowerState r'),
                                    Shutdown r' 30, Stop r']\<rparr>"
        have step: "shutdown_loop f (r' # rs) d = shutdown_loop f rs ?d1"
          using load True upd by (simp add: shutdown_loop_Cons del: shutdown_loop.simps)
        have em: "emitted d (snd (shutdown_loop f rs ?d1))
                  = [NewLxdContainer r', IsRunning r' True, DbExec (SetPowerState r'),
                     Shutdown r' 30, Stop r'] @ emitted ?d1 (snd (shutdown_loop f rs ?d1))"
          by (rule emitted_step) simp
        from Cons.prems consider "r = r'"
          | "IsRunning r True \<in> set (emitted ?d1 (snd (shutdown_loop f rs ?d1)))"
          unfolding step em by auto
        then show ?thesis
        proof cases
          case 1
          then show ?thesis using True by simp
        next
          case 2
          from Cons.IH [OF this] show ?thesis
            by (simp split: if_splits)
        qed
      qed
    qed
  qed
qed





subsection \<open>containersRestart and containersShutdown as a whole\<close>

lemma containersRestart_unfold:
  "containersRestart f d =
     (if f (DbQueryScan (SelectPowerOn cTypeRegular))
      then (Some (Failed (DbQueryScan (SelectPowerOn cTypeRegular))),
            d\<lparr>trace := trace d @ [DbQueryScan (SelectPowerOn cTypeRegular)]\<rparr>)
      else if f (DbExec ClearPowerState)
      then (Some (Failed (DbExec ClearPowerState)),
            d\<lparr>trace := trace d @ [DbQueryScan (SelectPowerOn cTypeRegular), DbExec ClearPowerState]\<rparr>)
      else restart_loop f (flagged d)
             (d\<lparr>db := run_stmt ClearPowerState (db d),
                trace := trace d @ [DbQueryScan (SelectPowerOn cTypeRegular), DbExec ClearPowerState]\<rparr>))"
  by (simp add: containersRestart_def dbQueryScan_def dbExec_def record_call_def flagged_def)

lemma containersShutdown_unfold:
  "containersShutdown f d =
     (if f ListRegularContainers
      then (Some (Failed ListRegularContainers), d\<lparr>trace := trace d @ [ListRegularContainers]\<rparr>)
      else shutdown_loop f (regular d) (d\<lparr>trace := trace d @ [ListRegularContainers]\<rparr>))"
  by (simp add: containersShutdown_def ListRegularContainers_call_def record_call_def regular_def)

lemma containersRestart_emitted:
  "emitted d (snd (containersRestart f d)) =
     (if f (DbQueryScan (SelectPowerOn cTypeRegular)) then [DbQueryScan (SelectPowerOn cTypeRegular)]
      else if f (DbExec ClearPowerState)
      then [DbQueryScan (SelectPowerOn cTypeRegular), DbExec ClearPowerState]
      else DbQueryScan (SelectPowerOn cTypeRegular) # DbExec ClearPowerState
             # restart_calls f (flagged d))"
  by (simp add: containersRestart_unfold emitted_def restart_loop_trace)

lemma containersShutdown_emitted:
  "\<exists>e. emitted d (snd (containersShutdown f d)) = ListRegularContainers # e
       \<and> shutdown_trace f e
       \<and> (\<not> f ListRegularContainers \<longrightarrow>
            e = emitted (d\<lparr>trace := trace d @ [ListRegularContainers]\<rparr>)
                  (snd (shutdown_loop f (regular d) (d\<lparr>trace := trace d @ [ListRegularContainers]\<rparr>))))"
proof (cases "f ListRegularContainers")
  case True
  then show ?thesis
    by (simp add: containersShutdown_unfold emitted_def st_done)
next
  case False
  let ?d1 = "d\<lparr>trace := trace d @ [ListRegularContainers]\<rparr>"
  have "emitted d (snd (shutdown_loop f (regular d) ?d1))
          = [ListRegularContainers] @ emitted ?d1 (snd (shutdown_loop f (regular d) ?d1))"
    by (rule emitted_step) simp
  then show ?thesis
    using False shutdown_loop_emitted(2) [where f = f and rs = "regular d" and d = ?d1]
    by (simp add: containersShutdown_unfold)
qed

subsection \<open>The loops up to their first failure\<close>











subsection \<open>The first failure in \<^verbatim>\<open>containersRestart\<close> and \<^verbatim>\<open>containersShutdown\<close>\<close>









subsection \<open>Failures in the batch operations\<close>





subsection \<open>Restart-all recovery and the power-state flag\<close>

text \<open>
  Claim C6. The first call of \<^verbatim>\<open>containersRestart\<close> is the query for the instances
  whose \<open>power_state\<close> is 1; if anything follows, the next call is the update that
  clears the flag of every row, and only loads and starts come after it, the starts
  for instances the query returned. No other update is issued, so the flag is never
  set back. When the query and the update succeed, every row ends with \<open>power_state\<close> 0
  and is otherwise unchanged, whatever the loads and starts return. (\<^verbatim>\<open>Start()\<close> is the
  runtime handle's call and does not write the table.)
\<close>

theorem C6_restart_clears_flags:
  "(\<exists>l. emitted d (snd (containersRestart f d)) = DbQueryScan (SelectPowerOn cTypeRegular) # l
        \<and> (l = [] \<or> (\<exists>l'. l = DbExec ClearPowerState # l'
                         \<and> list_all is_load_or_start l'
                         \<and> set (started l') \<subseteq> set (flagged d))))
   \<and> (\<forall>n. DbExec (SetPowerState n) \<notin> set (emitted d (snd (containersRestart f d))))
   \<and> (\<not> f (DbQueryScan (SelectPowerOn cTypeRegular)) \<and> \<not> f (DbExec ClearPowerState)
        \<longrightarrow> db (snd (containersRestart f d)) = map (\<lambda>r. r\<lparr>power_state := 0\<rparr>) (db d)
            \<and> (\<forall>r \<in> set (db (snd (containersRestart f d))). power_state r = 0))"
proof (intro conjI allI impI)
  have sub: "set (started (restart_calls f (flagged d))) \<subseteq> set (flagged d)"
    unfolding restart_calls_started using set_takeWhileD by fastforce
  show "\<exists>l. emitted d (snd (containersRestart f d)) = DbQueryScan (SelectPowerOn cTypeRegular) # l
        \<and> (l = [] \<or> (\<exists>l'. l = DbExec ClearPowerState # l'
                         \<and> list_all is_load_or_start l'
                         \<and> set (started l') \<subseteq> set (flagged d)))"
    using sub by (simp add: containersRestart_emitted restart_calls_shape)
next
  fix n
  have "DbExec (SetPowerState n) \<notin> set (restart_calls f (flagged d))"
    using restart_calls_shape [of f "flagged d"] by (auto simp: list_all_iff)
  then show "DbExec (SetPowerState n) \<notin> set (emitted d (snd (containersRestart f d)))"
    by (simp add: containersRestart_emitted)
next
  assume ok: "\<not> f (DbQueryScan (SelectPowerOn cTypeRegular)) \<and> \<not> f (DbExec ClearPowerState)"
  then show db: "db (snd (containersRestart f d)) = map (\<lambda>r. r\<lparr>power_state := 0\<rparr>) (db d)"
    by (simp add: containersRestart_unfold restart_loop_db)
  show "\<forall>r \<in> set (db (snd (containersRestart f d))). power_state r = 0"
    unfolding db by simp
qed

theorem C6_restart_clears_flags_witness:
  "\<not> fail_Start_a (DbQueryScan (SelectPowerOn cTypeRegular))
   \<and> \<not> fail_Start_a (DbExec ClearPowerState)
   \<and> fail_Start_a (Start ''a'')
   \<and> map power_state (db world_restart) = [1, 1, 0]
   \<and> map power_state (db (snd (containersRestart fail_Start_a world_restart))) = [0, 0, 0]"
proof -
  have ok: "\<not> fail_Start_a (DbQueryScan (SelectPowerOn cTypeRegular))
              \<and> \<not> fail_Start_a (DbExec ClearPowerState)"
    by (simp add: fail_Start_a_def)
  note t = C6_restart_clears_flags [of world_restart fail_Start_a,
      THEN conjunct2, THEN conjunct2, rule_format, OF ok]
  from t have "db (snd (containersRestart fail_Start_a world_restart))
                 = map (\<lambda>r. r\<lparr>power_state := 0\<rparr>) (db world_restart)"
    by blast
  then show ?thesis
    using ok by (simp add: world_restart_def row_a_def row_b_def row_c_def fail_Start_a_def)
qed

subsection \<open>Mass shutdown, instance by instance\<close>

lemma containersShutdown_head:
  "emitted d (snd (containersShutdown f d))
     = ListRegularContainers # tl (emitted d (snd (containersShutdown f d)))"
  using containersShutdown_emitted [of d f] by auto

lemma containersShutdown_tail:
  "shutdown_trace f (tl (emitted d (snd (containersShutdown f d))))"
  using containersShutdown_emitted [of d f] by auto

lemma containersShutdown_db:
  "db (snd (containersShutdown f d)) =
     map (\<lambda>row. if Shutdown (row_name row) 30 \<in> set (tl (emitted d (snd (containersShutdown f d))))
                 then row\<lparr>power_state := 1\<rparr> else row) (db d)"
proof (cases "f ListRegularContainers")
  case True
  then show ?thesis
    by (simp add: containersShutdown_unfold emitted_def)
next
  case False
  let ?d1 = "d\<lparr>trace := trace d @ [ListRegularContainers]\<rparr>"
  have em: "emitted d (snd (shutdown_loop f (regular d) ?d1))
          = [ListRegularContainers] @ emitted ?d1 (snd (shutdown_loop f (regular d) ?d1))"
    by (rule emitted_step) simp
  show ?thesis
    using False shutdown_loop_db [of f "regular d" ?d1]
    by (simp add: containersShutdown_unfold em)
qed

lemma containersShutdown_observed_running:
  "IsRunning r True \<in> set (emitted d (snd (containersShutdown f d))) \<Longrightarrow> r \<in> set (running d)"
proof (cases "f ListRegularContainers")
  case True
  assume "IsRunning r True \<in> set (emitted d (snd (containersShutdown f d)))"
  with True show ?thesis
    by (simp add: containersShutdown_unfold emitted_def)
next
  case False
  let ?d1 = "d\<lparr>trace := trace d @ [ListRegularContainers]\<rparr>"
  assume a: "IsRunning r True \<in> set (emitted d (snd (containersShutdown f d)))"
  have em: "emitted d (snd (shutdown_loop f (regular d) ?d1))
          = [ListRegularContainers] @ emitted ?d1 (snd (shutdown_loop f (regular d) ?d1))"
    by (rule emitted_step) simp
  from a False have "IsRunning r True \<in> set (emitted ?d1 (snd (shutdown_loop f (regular d) ?d1)))"
    by (simp add: containersShutdown_unfold em)
  from shutdown_loop_observed_running [OF this] show ?thesis
    by simp
qed

lemma split_after_head:
  assumes "t = c # tl t" and "t = pre @ x # post" and "x \<noteq> c"
  shows "\<exists>pre'. pre = c # pre' \<and> tl t = pre' @ x # post"
  using assms by (cases pre) auto

lemma filter_map_unchanged:
  assumes "\<And>x. P (g x) = P x" and "\<And>x. P x \<Longrightarrow> g x = x"
  shows "filter P (map g xs) = filter P xs"
  using assms by (induction xs) auto

text \<open>
  Claim C7, as stated, at \<open>world_shutdown\<close> with no failing call: the graceful shutdown
  of \<open>a\<close> succeeds, \<open>a\<close> is no longer running when it returns, and \<^verbatim>\<open>Stop()\<close> is called
  for \<open>a\<close> all the same.
\<close>

theorem C7_counterexample:
  "''a'' \<in> set (running world_shutdown)
   \<and> fst (container_Shutdown no_faults ''a'' 30 world_shutdown) = None
   \<and> ''a'' \<notin> set (running (snd (container_Shutdown no_faults ''a'' 30 world_shutdown)))
   \<and> emitted world_shutdown (shutdown_goroutine no_faults ''a'' world_shutdown)
       = [Shutdown ''a'' 30, Stop ''a'']
   \<and> emitted world_shutdown (snd (containersShutdown no_faults world_shutdown))
       = [ListRegularContainers,
          NewLxdContainer ''a'', IsRunning ''a'' True, DbExec (SetPowerState ''a''),
          Shutdown ''a'' 30, Stop ''a'',
          NewLxdContainer ''b'', IsRunning ''b'' True, DbExec (SetPowerState ''b''),
          Shutdown ''b'' 30, Stop ''b'',
          NewLxdContainer ''c'', IsRunning ''c'' False]"
  by (simp add: containersShutdown_unfold shutdown_loop_Cons emitted_def
      regular_def run_query_def world_shutdown_def row_a_def row_b_def row_c_def no_faults_def
      shutdown_goroutine_def container_Shutdown_def container_Stop_def record_call_def
      del: shutdown_loop.simps(2))

text \<open>
  Claim C7, amended. Every call of \<^verbatim>\<open>Shutdown\<close> that mass shutdown makes has the timeout
  of 30 seconds and is followed at once by \<^verbatim>\<open>Stop()\<close> on the same instance, whatever
  \<^verbatim>\<open>Shutdown\<close> returned and whether or not the instance still runs: the forced stop is
  unconditional. An instance observed running gets the update of its power state and,
  unless that update fails (which ends the function), the shutdown followed by the
  stop.
\<close>

theorem C7_shutdown_then_stop:
  "(\<forall>pre r x post. emitted d (snd (containersShutdown f d)) = pre @ Shutdown r x # post
       \<longrightarrow> x = 30 \<and> (\<exists>post'. post = Stop r # post'))
   \<and> (\<forall>pre r post. emitted d (snd (containersShutdown f d)) = pre @ IsRunning r True # post
       \<longrightarrow> (post = [DbExec (SetPowerState r)] \<and> f (DbExec (SetPowerState r)))
           \<or> (\<exists>post'. post = DbExec (SetPowerState r) # Shutdown r 30 # Stop r # post'))"
proof (intro conjI allI impI)
  fix pre r x post
  assume e: "emitted d (snd (containersShutdown f d)) = pre @ Shutdown r x # post"
  have "\<exists>pre'. pre = ListRegularContainers # pre'
          \<and> tl (emitted d (snd (containersShutdown f d))) = pre' @ Shutdown r x # post"
    by (rule split_after_head [OF containersShutdown_head e]) simp
  then obtain pre' where
    "tl (emitted d (snd (containersShutdown f d))) = pre' @ Shutdown r x # post"
    by (elim exE conjE)
  from shutdown_trace_Shutdown_then_Stop [OF containersShutdown_tail this]
  show "x = 30" and "\<exists>post'. post = Stop r # post'"
    by simp_all
next
  fix pre r post
  assume e: "emitted d (snd (containersShutdown f d)) = pre @ IsRunning r True # post"
  have "\<exists>pre'. pre = ListRegularContainers # pre'
          \<and> tl (emitted d (snd (containersShutdown f d))) = pre' @ IsRunning r True # post"
    by (rule split_after_head [OF containersShutdown_head e]) simp
  then obtain pre' where
    "tl (emitted d (snd (containersShutdown f d))) = pre' @ IsRunning r True # post"
    by (elim exE conjE)
  from st_after_observed [OF containersShutdown_tail this]
  show "(post = [DbExec (SetPowerState r)] \<and> f (DbExec (SetPowerState r)))
           \<or> (\<exists>post'. post = DbExec (SetPowerState r) # Shutdown r 30 # Stop r # post')" .
qed

theorem C7_shutdown_then_stop_witness:
  "emitted world_shutdown (snd (containersShutdown fail_stop_a world_shutdown))
     = [ListRegularContainers, NewLxdContainer ''a'', IsRunning ''a'' True,
        DbExec (SetPowerState ''a'')]
       @ Shutdown ''a'' 30
       # [Stop ''a'',
          NewLxdContainer ''b'', IsRunning ''b'' True, DbExec (SetPowerState ''b''),
          Shutdown ''b'' 30, Stop ''b'',
          NewLxdContainer ''c'', IsRunning ''c'' False]
   \<and> (\<exists>post'. [Stop ''a'',
          NewLxdContainer ''b'', IsRunning ''b'' True, DbExec (SetPowerState ''b''),
          Shutdown ''b'' 30, Stop ''b'',
          NewLxdContainer ''c'', IsRunning ''c'' False] = Stop ''a'' # post')
   \<and> emitted world_shutdown (snd (containersShutdown fail_stop_a world_shutdown))
     = [ListRegularContainers, NewLxdContainer ''a'']
       @ IsRunning ''a'' True
       # [DbExec (SetPowerState ''a''), Shutdown ''a'' 30, Stop ''a'',
          NewLxdContainer ''b'', IsRunning ''b'' True, DbExec (SetPowerState ''b''),
          Shutdown ''b'' 30, Stop ''b'',
          NewLxdContainer ''c'', IsRunning ''c'' False]"
proof -
  let ?post = "[Stop ''a'',
          NewLxdContainer ''b'', IsRunning ''b'' True, DbExec (SetPowerState ''b''),
          Shutdown ''b'' 30, Stop ''b'',
          NewLxdContainer ''c'', IsRunning ''c'' False]"
  have tr: "emitted world_shutdown (snd (containersShutdown fail_stop_a world_shutdown))
     = [ListRegularContainers, NewLxdContainer ''a'', IsRunning ''a'' True,
        DbExec (SetPowerState ''a'')] @ Shutdown ''a'' 30 # ?post"
    by (simp add: containersShutdown_unfold shutdown_loop_Cons emitted_def
      regular_def run_query_def world_shutdown_def row_a_def row_b_def row_c_def fail_stop_a_def
      del: shutdown_loop.simps(2))
  note t = C7_shutdown_then_stop [of world_shutdown fail_stop_a, THEN conjunct1, rule_format, OF tr]
  then have "\<exists>post'. ?post = Stop ''a'' # post'"
    by blast
  then show ?thesis
    using tr by simp
qed

text \<open>
  Claim C10. In mass shutdown the update \<^verbatim>\<open>UPDATE containers SET power_state=1 WHERE name=?\<close>
  is issued for exactly the instances observed running (and an instance observed
  running was running when the function started); a shutdown attempt on an instance
  comes directly after that instance's update, which has succeeded, and the rows of
  such an instance end with \<open>power_state\<close> 1. An instance that was not observed running
  gets no update, no \<^verbatim>\<open>Shutdown\<close> and no \<^verbatim>\<open>Stop\<close>, and its rows are left as they were. No
  other statement is executed.
\<close>

theorem C10_power_state_frame:
  "(\<forall>r. DbExec (SetPowerState r) \<in> set (emitted d (snd (containersShutdown f d)))
          \<longleftrightarrow> IsRunning r True \<in> set (emitted d (snd (containersShutdown f d))))
   \<and> (\<forall>r. IsRunning r True \<in> set (emitted d (snd (containersShutdown f d)))
          \<longrightarrow> r \<in> set (running d))
   \<and> (\<forall>pre r x post. emitted d (snd (containersShutdown f d)) = pre @ Shutdown r x # post
          \<longrightarrow> (\<exists>pre'. pre = pre' @ [IsRunning r True, DbExec (SetPowerState r)])
              \<and> \<not> f (DbExec (SetPowerState r))
              \<and> (\<forall>row \<in> set (db (snd (containersShutdown f d))).
                    row_name row = r \<longrightarrow> power_state row = 1))
   \<and> (\<forall>r. IsRunning r True \<notin> set (emitted d (snd (containersShutdown f d)))
          \<longrightarrow> DbExec (SetPowerState r) \<notin> set (emitted d (snd (containersShutdown f d)))
              \<and> (\<forall>x. Shutdown r x \<notin> set (emitted d (snd (containersShutdown f d))))
              \<and> Stop r \<notin> set (emitted d (snd (containersShutdown f d)))
              \<and> filter (\<lambda>row. row_name row = r) (db (snd (containersShutdown f d)))
                  = filter (\<lambda>row. row_name row = r) (db d))
   \<and> (\<forall>s. DbExec s \<in> set (emitted d (snd (containersShutdown f d)))
          \<longrightarrow> (\<exists>r. s = SetPowerState r))"
proof -
  let ?e = "emitted d (snd (containersShutdown f d))"
  let ?t = "tl ?e"
  let ?d' = "snd (containersShutdown f d)"
  have hd: "?e = ListRegularContainers # ?t"
    by (rule containersShutdown_head)
  have st: "shutdown_trace f ?t"
    by (rule containersShutdown_tail)
  have mem: "\<And>c. c \<noteq> ListRegularContainers \<Longrightarrow> c \<in> set ?e \<longleftrightarrow> c \<in> set ?t"
  proof -
    fix c :: call
    assume "c \<noteq> ListRegularContainers"
    then have "c \<in> set (ListRegularContainers # ?t) \<longleftrightarrow> c \<in> set ?t"
      by simp
    then show "c \<in> set ?e \<longleftrightarrow> c \<in> set ?t"
      using hd by simp
  qed
  have a: "\<forall>r. DbExec (SetPowerState r) \<in> set ?e \<longleftrightarrow> IsRunning r True \<in> set ?e"
    using st_update_iff_observed [OF st] by (simp add: mem)
  have b: "\<forall>r. IsRunning r True \<in> set ?e \<longrightarrow> r \<in> set (running d)"
    using containersShutdown_observed_running by blast
  have c: "\<forall>pre r x post. ?e = pre @ Shutdown r x # post
          \<longrightarrow> (\<exists>pre'. pre = pre' @ [IsRunning r True, DbExec (SetPowerState r)])
              \<and> \<not> f (DbExec (SetPowerState r))
              \<and> (\<forall>row \<in> set (db ?d'). row_name row = r \<longrightarrow> power_state row = 1)"
  proof (intro allI impI)
    fix pre r x post
    assume e: "?e = pre @ Shutdown r x # post"
    have "\<exists>pre'. pre = ListRegularContainers # pre' \<and> ?t = pre' @ Shutdown r x # post"
      by (rule split_after_head [OF hd e]) simp
    then obtain pre2 where pre2: "pre = ListRegularContainers # pre2"
      "?t = pre2 @ Shutdown r x # post"
      by (elim exE conjE)
    from st_before_Shutdown [OF st pre2(2)] obtain pre3 where
      pre3: "pre2 = pre3 @ [IsRunning r True, DbExec (SetPowerState r)]"
      and ok: "\<not> f (DbExec (SetPowerState r))"
      by (elim exE conjE)
    have x: "x = 30"
      using shutdown_trace_Shutdown_then_Stop [OF st pre2(2)] by simp
    have "Shutdown r 30 \<in> set ?t"
      using pre2(2) x by simp
    then have rows: "\<forall>row \<in> set (db ?d'). row_name row = r \<longrightarrow> power_state row = 1"
      by (subst containersShutdown_db) auto
    have "pre = (ListRegularContainers # pre3) @ [IsRunning r True, DbExec (SetPowerState r)]"
      using pre2(1) pre3 by simp
    then have "\<exists>pre'. pre = pre' @ [IsRunning r True, DbExec (SetPowerState r)]"
      by (rule exI)
    with ok rows
    show "(\<exists>pre'. pre = pre' @ [IsRunning r True, DbExec (SetPowerState r)])
              \<and> \<not> f (DbExec (SetPowerState r))
              \<and> (\<forall>row \<in> set (db ?d'). row_name row = r \<longrightarrow> power_state row = 1)"
      by (intro conjI)
  qed
  have d: "\<forall>r. IsRunning r True \<notin> set ?e
          \<longrightarrow> DbExec (SetPowerState r) \<notin> set ?e
              \<and> (\<forall>x. Shutdown r x \<notin> set ?e)
              \<and> Stop r \<notin> set ?e
              \<and> filter (\<lambda>row. row_name row = r) (db ?d') = filter (\<lambda>row. row_name row = r) (db d)"
  proof (intro allI impI)
    fix r
    assume "IsRunning r True \<notin> set ?e"
    then have no: "IsRunning r True \<notin> set ?t"
      by (simp add: mem)
    have 1: "DbExec (SetPowerState r) \<notin> set ?e"
      using st_update_iff_observed [OF st] no by (simp add: mem)
    have 2: "\<forall>x. Shutdown r x \<notin> set ?e"
      using st_not_observed [OF st no] by (simp add: mem)
    have 3: "Stop r \<notin> set ?e"
      using st_not_observed [OF st no] by (simp add: mem)
    have "Shutdown r 30 \<notin> set ?t"
      using st_not_observed [OF st no] by simp
    then have 4: "filter (\<lambda>row. row_name row = r) (db ?d') = filter (\<lambda>row. row_name row = r) (db d)"
      by (subst containersShutdown_db) (rule filter_map_unchanged, auto)
    from 1 2 3 4
    show "DbExec (SetPowerState r) \<notin> set ?e
              \<and> (\<forall>x. Shutdown r x \<notin> set ?e)
              \<and> Stop r \<notin> set ?e
              \<and> filter (\<lambda>row. row_name row = r) (db ?d') = filter (\<lambda>row. row_name row = r) (db d)"
      by (intro conjI)
  qed
  have e: "\<forall>s. DbExec s \<in> set ?e \<longrightarrow> (\<exists>r. s = SetPowerState r)"
    using st_only_SetPowerState [OF st] by (simp add: mem)
  from a b c d e show ?thesis
    by (intro conjI)
qed

theorem C10_power_state_frame_witness:
  "emitted world_shutdown (snd (containersShutdown fail_stop_a world_shutdown))
     = [ListRegularContainers, NewLxdContainer ''a'', IsRunning ''a'' True,
        DbExec (SetPowerState ''a'')]
       @ Shutdown ''a'' 30
       # [Stop ''a'',
          NewLxdContainer ''b'', IsRunning ''b'' True, DbExec (SetPowerState ''b''),
          Shutdown ''b'' 30, Stop ''b'',
          NewLxdContainer ''c'', IsRunning ''c'' False]
   \<and> IsRunning ''a'' True
        \<in> set (emitted world_shutdown (snd (containersShutdown fail_stop_a world_shutdown)))
   \<and> ''a'' \<in> set (running world_shutdown)
   \<and> \<not> fail_stop_a (DbExec (SetPowerState ''a''))
   \<and> list_all (\<lambda>row. row_name row = ''a'' \<longrightarrow> power_state row = 1)
        (db (snd (containersShutdown fail_stop_a world_shutdown)))
   \<and> IsRunning ''c'' True
        \<notin> set (emitted world_shutdown (snd (containersShutdown fail_stop_a world_shutdown)))
   \<and> Stop ''c''
        \<notin> set (emitted world_shutdown (snd (containersShutdown fail_stop_a world_shutdown)))
   \<and> filter (\<lambda>row. row_name row = ''c'')
         (db (snd (containersShutdown fail_stop_a world_shutdown)))
       = filter (\<lambda>row. row_name row = ''c'') (db world_shutdown)
   \<and> DbExec (SetPowerState ''b'')
        \<in> set (emitted world_shutdown (snd (containersShutdown fail_stop_a world_shutdown)))"
proof -
  let ?e = "emitted world_shutdown (snd (containersShutdown fail_stop_a world_shutdown))"
  let ?d' = "snd (containersShutdown fail_stop_a world_shutdown)"
  let ?post = "[Stop ''a'',
          NewLxdContainer ''b'', IsRunning ''b'' True, DbExec (SetPowerState ''b''),
          Shutdown ''b'' 30, Stop ''b'',
          NewLxdContainer ''c'', IsRunning ''c'' False]"
  note t = C10_power_state_frame [of world_shutdown fail_stop_a]
  note t_upd = t [THEN conjunct1, rule_format]
  note t_run = t [THEN conjunct2, THEN conjunct1, rule_format]
  note t_shut = t [THEN conjunct2, THEN conjunct2, THEN conjunct1, rule_format]
  note t_frame = t [THEN conjunct2, THEN conjunct2, THEN conjunct2, THEN conjunct1, rule_format]
  have tr: "?e = [ListRegularContainers, NewLxdContainer ''a'', IsRunning ''a'' True,
        DbExec (SetPowerState ''a'')] @ Shutdown ''a'' 30 # ?post"
    by (simp add: containersShutdown_unfold shutdown_loop_Cons emitted_def
      regular_def run_query_def world_shutdown_def row_a_def row_b_def row_c_def fail_stop_a_def
      del: shutdown_loop.simps(2))
  have obs_a: "IsRunning ''a'' True \<in> set ?e"
    unfolding tr by simp
  have obs_b: "IsRunning ''b'' True \<in> set ?e"
    unfolding tr by simp
  have not_c: "IsRunning ''c'' True \<notin> set ?e"
    unfolding tr by simp
  have run_a: "''a'' \<in> set (running world_shutdown)"
    using obs_a by (rule t_run)
  have shut: "(\<exists>pre'. [ListRegularContainers, NewLxdContainer ''a'', IsRunning ''a'' True,
                        DbExec (SetPowerState ''a'')]
                 = pre' @ [IsRunning ''a'' True, DbExec (SetPowerState ''a'')])
              \<and> \<not> fail_stop_a (DbExec (SetPowerState ''a''))
              \<and> (\<forall>row \<in> set (db ?d'). row_name row = ''a'' \<longrightarrow> power_state row = 1)"
    using tr by (rule t_shut)
  then have rows_a: "list_all (\<lambda>row. row_name row = ''a'' \<longrightarrow> power_state row = 1) (db ?d')"
    by (simp add: list_all_iff)
  have frame_c: "DbExec (SetPowerState ''c'') \<notin> set ?e
              \<and> (\<forall>x. Shutdown ''c'' x \<notin> set ?e)
              \<and> Stop ''c'' \<notin> set ?e
              \<and> filter (\<lambda>row. row_name row = ''c'') (db ?d')
                  = filter (\<lambda>row. row_name row = ''c'') (db world_shutdown)"
    using not_c by (rule t_frame)
  have upd_b: "DbExec (SetPowerState ''b'') \<in> set ?e"
    using obs_b t_upd by blast
  show ?thesis
    using tr obs_a run_a shut rows_a not_c frame_c upd_b by blast
qed

subsection \<open>Snapshot cleanup\<close>

lemma btrfsDeleteSubvol_effect:
  "trace (snd (btrfsDeleteSubvol f p d)) = trace d @ [BtrfsDeleteSubvol p]"
  "db (snd (btrfsDeleteSubvol f p d)) = db d"
  "set (storage (snd (btrfsDeleteSubvol f p d))) \<subseteq> set (storage d)"
  by (auto simp: btrfsDeleteSubvol_def record_call_simps)

lemma os_RemoveAll_effect:
  "trace (snd (os_RemoveAll f p d)) = trace d @ [RemoveAll p]"
  "db (snd (os_RemoveAll f p d)) = db d"
  "set (storage (snd (os_RemoveAll f p d))) \<subseteq> set (storage d)"
  "\<not> f (RemoveAll p) \<Longrightarrow> q \<in> set (storage (snd (os_RemoveAll f p d))) \<Longrightarrow> \<not> under p q"
  by (auto simp: os_RemoveAll_def record_call_simps)

lemma remove_loop_ids:
  "fst (remove_loop f V b rs ids d) = ids @ map snd rs"
  by (induction rs arbitrary: ids d) (auto simp: Let_def)

lemma remove_loop_trace:
  "trace (snd (remove_loop f V b rs ids d)) = trace d @ remove_calls V b rs"
  by (induction rs arbitrary: ids d)
     (auto simp: Let_def os_RemoveAll_effect btrfsDeleteSubvol_effect)

lemma remove_loop_db:
  "db (snd (remove_loop f V b rs ids d)) = db d"
  by (induction rs arbitrary: ids d)
     (auto simp: Let_def os_RemoveAll_effect btrfsDeleteSubvol_effect)

lemma remove_loop_storage_subset:
  "set (storage (snd (remove_loop f V b rs ids d))) \<subseteq> set (storage d)"
proof (induction rs arbitrary: ids d)
  case Nil
  show ?case by simp
next
  case (Cons r rs)
  obtain sname i where r: "r = (sname, i)"
    by (cases r)
  let ?cdir = "V ''snapshots'' sname"
  let ?d1 = "if b = ''btrfs'' then snd (btrfsDeleteSubvol f ?cdir d) else d"
  let ?d2 = "snd (os_RemoveAll f ?cdir ?d1)"
  have "set (storage ?d2) \<subseteq> set (storage ?d1)"
    by (rule os_RemoveAll_effect)
  moreover have "set (storage ?d1) \<subseteq> set (storage d)"
    using btrfsDeleteSubvol_effect(3) by simp
  moreover have "set (storage (snd (remove_loop f V b rs (ids @ [i]) ?d2))) \<subseteq> set (storage ?d2)"
    by (rule Cons.IH)
  ultimately show ?case
    unfolding r by (auto simp: Let_def)
qed

lemma remove_loop_storage_absent:
  assumes "\<forall>p. \<not> f (RemoveAll p)" and "(sname, i) \<in> set rs"
    and "q \<in> set (storage (snd (remove_loop f V b rs ids d)))"
  shows "\<not> under (V ''snapshots'' sname) q"
  using assms(2,3)
proof (induction rs arbitrary: ids d)
  case Nil
  then show ?case by simp
next
  case (Cons r rs)
  obtain sname' i' where r: "r = (sname', i')"
    by (cases r)
  let ?cdir = "V ''snapshots'' sname'"
  let ?d1 = "if b = ''btrfs'' then snd (btrfsDeleteSubvol f ?cdir d) else d"
  let ?d2 = "snd (os_RemoveAll f ?cdir ?d1)"
  have q: "q \<in> set (storage (snd (remove_loop f V b rs (ids @ [i']) ?d2)))"
    using Cons.prems(2) unfolding r by (simp add: Let_def)
  show ?case
  proof (cases "(sname, i) \<in> set rs")
    case True
    from Cons.IH [OF True q] show ?thesis .
  next
    case False
    then have same: "sname' = sname"
      using Cons.prems(1) r by simp
    have "q \<in> set (storage ?d2)"
      using q remove_loop_storage_subset by blast
    then show ?thesis
      using os_RemoveAll_effect(4) [of f ?cdir q ?d1] assms(1) same by blast
  qed
qed

lemma remove_calls_RemoveAll:
  "(sname, i) \<in> set rs \<Longrightarrow> RemoveAll (V ''snapshots'' sname) \<in> set (remove_calls V b rs)"
  by (induction rs) auto

lemma remove_calls_no_DbExec: "DbExec s \<notin> set (remove_calls V b rs)"
  by (induction rs) auto

lemma delete_loop_trace:
  "trace (snd (delete_loop f ids d)) = trace d @ delete_calls f ids"
  by (induction ids arbitrary: d) (auto simp: dbExec_def record_call_simps)

lemma delete_loop_storage:
  "storage (snd (delete_loop f ids d)) = storage d"
  by (induction ids arbitrary: d) (auto simp: dbExec_def record_call_simps)

lemma delete_loop_result:
  "fst (delete_loop f ids d) =
     (case find (\<lambda>i. f (DbExec (DeleteById i))) ids of
        None \<Rightarrow> None | Some i \<Rightarrow> Some (Failed (DbExec (DeleteById i))))"
  by (induction ids arbitrary: d) (auto simp: dbExec_def)

lemma delete_loop_db:
  "db (snd (delete_loop f ids d)) =
     filter (\<lambda>r. row_id r \<notin> set (takeWhile (\<lambda>i. \<not> f (DbExec (DeleteById i))) ids)) (db d)"
proof (induction ids arbitrary: d)
  case Nil
  show ?case by simp
next
  case (Cons i ids)
  show ?case
  proof (cases "f (DbExec (DeleteById i))")
    case True
    then show ?thesis
      by (simp add: dbExec_def record_call_simps)
  next
    case False
    then show ?thesis
      using Cons.IH [of "record_call (DbExec (DeleteById i)) (d\<lparr>db := run_stmt (DeleteById i) (db d)\<rparr>)"]
      by (simp add: dbExec_def record_call_simps conj_commute)
  qed
qed

lemma delete_calls_members:
  "DbExec (DeleteById i) \<in> set (delete_calls f ids) \<Longrightarrow> i \<in> set ids"
  by (induction ids) (auto split: if_splits)

lemma append_split_late:
  assumes "xs @ ys = pre @ c # post" and "c \<notin> set xs"
  shows "\<exists>pre'. pre = xs @ pre' \<and> ys = pre' @ c # post"
  using assms
proof (induction xs arbitrary: pre)
  case Nil
  then show ?case by simp
next
  case (Cons x xs)
  then show ?case
    by (cases pre) auto
qed

text \<open>\<^verbatim>\<open>containerDeleteSnapshots\<close>, spelled out.\<close>

lemma containerDeleteSnapshots_unfold:
  "containerDeleteSnapshots f V delim cname d =
     (if f (DbQueryScan (snapshots_query delim cname))
      then (Some (Failed (DbQueryScan (snapshots_query delim cname))),
            d\<lparr>trace := trace d @ [DbQueryScan (snapshots_query delim cname)]\<rparr>)
      else if V ''containers'' cname \<in> set (storage d) \<and> f (FilesystemDetect (V ''containers'' cname))
      then (Some (Failed (FilesystemDetect (V ''containers'' cname))),
            d\<lparr>trace := trace d @ [DbQueryScan (snapshots_query delim cname),
                                  FilesystemDetect (V ''containers'' cname)]\<rparr>)
      else delete_loop f (map snd (run_query (snapshots_query delim cname) (db d)))
             (snd (remove_loop f V
                     (if V ''containers'' cname \<in> set (storage d) then fstype d else [])
                     (run_query (snapshots_query delim cname) (db d)) []
                     (d\<lparr>trace := trace d @ [DbQueryScan (snapshots_query delim cname),
                                           FilesystemDetect (V ''containers'' cname)]\<rparr>))))"
  by (simp add: containerDeleteSnapshots_def snapshots_query_def Let_def dbQueryScan_def
      filesystemDetect_def record_call_def remove_loop_ids case_prod_beta)

lemma run_query_member:
  "(n, i) \<in> set (run_query q rows) \<longleftrightarrow> (\<exists>r \<in> set rows. matches q r \<and> row_name r = n \<and> row_id r = i)"
  by (auto simp: run_query_def)

lemma cleanup_order:
  assumes "emitted d (snd (containerDeleteSnapshots f V delim cname d))
             = pre @ DbExec (DeleteById i) # post"
  shows "(\<exists>sname. (sname, i) \<in> set (run_query (snapshots_query delim cname) (db d)))
         \<and> (\<forall>sname. (sname, i) \<in> set (run_query (snapshots_query delim cname) (db d))
               \<longrightarrow> RemoveAll (V ''snapshots'' sname) \<in> set pre)"
proof -
  let ?q = "snapshots_query delim cname"
  let ?res = "run_query ?q (db d)"
  let ?cpath = "V ''containers'' cname"
  let ?b = "if ?cpath \<in> set (storage d) then fstype d else []"
  let ?head = "[DbQueryScan ?q, FilesystemDetect ?cpath] @ remove_calls V ?b ?res"
  have mem: "DbExec (DeleteById i) \<in> set (emitted d (snd (containerDeleteSnapshots f V delim cname d)))"
    unfolding assms by simp
  have main: "\<not> f (DbQueryScan ?q) \<and> \<not> (?cpath \<in> set (storage d) \<and> f (FilesystemDetect ?cpath))"
  proof (rule ccontr)
    assume "\<not> ?thesis"
    then have "DbExec (DeleteById i) \<notin> set (emitted d (snd (containerDeleteSnapshots f V delim cname d)))"
      by (auto simp: containerDeleteSnapshots_unfold emitted_def)
    with mem show False by simp
  qed
  have em: "emitted d (snd (containerDeleteSnapshots f V delim cname d))
              = ?head @ delete_calls f (map snd ?res)"
    using main
    by (cases "?cpath \<in> set (storage d)")
       (simp_all add: containerDeleteSnapshots_unfold emitted_def delete_loop_trace
          remove_loop_trace)
  have "DbExec (DeleteById i) \<notin> set ?head"
    by (simp add: remove_calls_no_DbExec)
  with assms [unfolded em] obtain pre' where
    pre': "pre = ?head @ pre'" "delete_calls f (map snd ?res) = pre' @ DbExec (DeleteById i) # post"
    using append_split_late [of ?head "delete_calls f (map snd ?res)" pre "DbExec (DeleteById i)" post]
    by blast
  have "DbExec (DeleteById i) \<in> set (delete_calls f (map snd ?res))"
    unfolding pre'(2) by simp
  then have "i \<in> set (map snd ?res)"
    by (rule delete_calls_members)
  then have 1: "\<exists>sname. (sname, i) \<in> set ?res"
    by auto
  have 2: "\<forall>sname. (sname, i) \<in> set ?res \<longrightarrow> RemoveAll (V ''snapshots'' sname) \<in> set pre"
    unfolding pre'(1) using remove_calls_RemoveAll [of _ i ?res V ?b] by simp
  from 1 2 show ?thesis
    by (rule conjI)
qed

lemma cleanup_failed_delete:
  assumes q: "\<not> f (DbQueryScan (snapshots_query delim cname))"
    and fd: "\<not> f (FilesystemDetect (V ''containers'' cname))"
    and rm: "\<forall>p. \<not> f (RemoveAll p)"
    and res: "fst (containerDeleteSnapshots f V delim cname d) \<noteq> None"
  shows "(\<exists>i. fst (containerDeleteSnapshots f V delim cname d) = Some (Failed (DbExec (DeleteById i)))
              \<and> (\<exists>r \<in> set (db (snd (containerDeleteSnapshots f V delim cname d))).
                    row_id r = i \<and> matches (snapshots_query delim cname) r))
         \<and> (\<forall>r \<in> set (db d). matches (snapshots_query delim cname) r
               \<longrightarrow> storage_absent V (row_name r) (snd (containerDeleteSnapshots f V delim cname d)))"
proof -
  let ?q = "snapshots_query delim cname"
  let ?res = "run_query ?q (db d)"
  let ?ids = "map snd ?res"
  let ?cpath = "V ''containers'' cname"
  let ?b = "if ?cpath \<in> set (storage d) then fstype d else []"
  let ?d0 = "d\<lparr>trace := trace d @ [DbQueryScan ?q, FilesystemDetect ?cpath]\<rparr>"
  let ?dr = "snd (remove_loop f V ?b ?res [] ?d0)"
  let ?P = "\<lambda>i. f (DbExec (DeleteById i))"
  have run: "containerDeleteSnapshots f V delim cname d = delete_loop f ?ids ?dr"
    using q fd by (simp add: containerDeleteSnapshots_unfold)
  from res obtain i where i: "find ?P ?ids = Some i"
    unfolding run delete_loop_result by (auto split: option.splits)
  then have Pi: "?P i" and i_in: "i \<in> set ?ids"
    by (auto simp: find_Some_iff)
  have not_taken: "i \<notin> set (takeWhile (\<lambda>i. \<not> ?P i) ?ids)"
    using Pi set_takeWhileD by fastforce
  from i_in obtain sname where "(sname, i) \<in> set ?res"
    by auto
  then obtain r where r: "r \<in> set (db d)" "matches ?q r" "row_id r = i"
    by (auto simp: run_query_member)
  have "r \<in> set (db (snd (delete_loop f ?ids ?dr)))"
    using r not_taken by (simp add: delete_loop_db remove_loop_db)
  then have 1: "\<exists>i. fst (containerDeleteSnapshots f V delim cname d) = Some (Failed (DbExec (DeleteById i)))
              \<and> (\<exists>r \<in> set (db (snd (containerDeleteSnapshots f V delim cname d))).
                    row_id r = i \<and> matches ?q r)"
    unfolding run delete_loop_result using i r by auto
  have 2: "\<forall>r \<in> set (db d). matches ?q r
               \<longrightarrow> storage_absent V (row_name r) (snd (containerDeleteSnapshots f V delim cname d))"
  proof (intro ballI impI)
    fix r'
    assume r': "r' \<in> set (db d)" "matches ?q r'"
    then have "(row_name r', row_id r') \<in> set ?res"
      by (auto simp: run_query_member)
    then have "\<forall>p \<in> set (storage ?dr). \<not> under (V ''snapshots'' (row_name r')) p"
      using remove_loop_storage_absent [OF rm] by blast
    then show "storage_absent V (row_name r') (snd (containerDeleteSnapshots f V delim cname d))"
      unfolding run by (simp add: storage_absent_def delete_loop_storage list_all_iff)
  qed
  from 1 2 show ?thesis
    by (rule conjI)
qed

lemma cleanup_completes:
  assumes q: "\<not> f (DbQueryScan (snapshots_query delim cname))"
    and fd: "\<not> f (FilesystemDetect (V ''containers'' cname))"
    and del: "\<forall>i. \<not> f (DbExec (DeleteById i))"
  shows "fst (containerDeleteSnapshots f V delim cname d) = None
         \<and> (\<forall>r \<in> set (db (snd (containerDeleteSnapshots f V delim cname d))).
               \<not> matches (snapshots_query delim cname) r)
         \<and> set (storage (snd (containerDeleteSnapshots f V delim cname d))) \<subseteq> set (storage d)"
proof -
  let ?q = "snapshots_query delim cname"
  let ?res = "run_query ?q (db d)"
  let ?ids = "map snd ?res"
  let ?cpath = "V ''containers'' cname"
  let ?b = "if ?cpath \<in> set (storage d) then fstype d else []"
  let ?d0 = "d\<lparr>trace := trace d @ [DbQueryScan ?q, FilesystemDetect ?cpath]\<rparr>"
  let ?dr = "snd (remove_loop f V ?b ?res [] ?d0)"
  have run: "containerDeleteSnapshots f V delim cname d = delete_loop f ?ids ?dr"
    using q fd by (simp add: containerDeleteSnapshots_unfold)
  have none: "find (\<lambda>i. f (DbExec (DeleteById i))) ?ids = None"
    using del by (simp add: find_None_iff)
  have all: "takeWhile (\<lambda>i. \<not> f (DbExec (DeleteById i))) ?ids = ?ids"
    using del by (simp add: takeWhile_eq_all_conv)
  have 1: "fst (containerDeleteSnapshots f V delim cname d) = None"
    unfolding run delete_loop_result none by simp
  have db': "db (snd (containerDeleteSnapshots f V delim cname d))
               = filter (\<lambda>r. row_id r \<notin> set ?ids) (db d)"
    unfolding run delete_loop_db all by (simp add: remove_loop_db)
  have 2: "\<forall>r \<in> set (db (snd (containerDeleteSnapshots f V delim cname d))). \<not> matches ?q r"
  proof
    fix r
    assume "r \<in> set (db (snd (containerDeleteSnapshots f V delim cname d)))"
    then have r: "r \<in> set (db d)" "row_id r \<notin> set ?ids"
      unfolding db' by simp_all
    show "\<not> matches ?q r"
    proof
      assume "matches ?q r"
      with r(1) have "(row_name r, row_id r) \<in> set ?res"
        by (auto simp: run_query_member)
      then have "row_id r \<in> set ?ids"
        by force
      with r(2) show False by simp
    qed
  qed
  have "set (storage ?dr) \<subseteq> set (storage ?d0)"
    by (rule remove_loop_storage_subset)
  then have 3: "set (storage (snd (containerDeleteSnapshots f V delim cname d))) \<subseteq> set (storage d)"
    unfolding run by (simp add: delete_loop_storage)
  from 1 2 3 show ?thesis
    by (intro conjI)
qed

lemma matches_snapshots_query:
  "matches (snapshots_query delim cname) r
     \<longleftrightarrow> row_type r = cTypeSnapshot \<and> prefix (cname @ delim) (row_name r)"
proof -
  have "take (length p) xs = p \<longleftrightarrow> prefix p xs" for p xs :: string
    by (metis append_take_drop_id prefixI take_is_prefix prefix_length_le
        append_eq_conv_conj prefixE)
  from this [of "cname @ delim" "row_name r"] show ?thesis
    by (simp add: snapshots_query_def)
qed

text \<open>
  Claim C4. The snapshots of an instance are the rows of type snapshot whose name
  begins with the instance name and the delimiter (\<open>matches_snapshots_query\<close>). Whenever
  \<^verbatim>\<open>containerDeleteSnapshots\<close> issues the delete of a row, the row is one of these
  snapshots and \<^verbatim>\<open>os.RemoveAll\<close> on its directory has been called before. If the query,
  the detection of the file system and the removals succeed and the function
  nevertheless fails, it failed in a delete: the row of that snapshot is still in the
  table while the storage of every snapshot of the instance is gone; a second run in
  which the query, the detection and the deletes succeed returns nil and leaves no
  snapshot row of the instance and no storage of these snapshots.
\<close>

theorem C4_snapshot_cleanup:
  "(\<forall>pre i post.
       emitted d (snd (containerDeleteSnapshots f V delim cname d))
         = pre @ DbExec (DeleteById i) # post
       \<longrightarrow> (\<exists>sname. (sname, i) \<in> set (run_query (snapshots_query delim cname) (db d)))
           \<and> (\<forall>sname. (sname, i) \<in> set (run_query (snapshots_query delim cname) (db d))
                 \<longrightarrow> RemoveAll (V ''snapshots'' sname) \<in> set pre))
   \<and> (\<not> f (DbQueryScan (snapshots_query delim cname))
        \<and> \<not> f (FilesystemDetect (V ''containers'' cname))
        \<and> (\<forall>p. \<not> f (RemoveAll p))
        \<and> fst (containerDeleteSnapshots f V delim cname d) \<noteq> None
        \<and> \<not> f2 (DbQueryScan (snapshots_query delim cname))
        \<and> \<not> f2 (FilesystemDetect (V ''containers'' cname))
        \<and> (\<forall>i. \<not> f2 (DbExec (DeleteById i)))
      \<longrightarrow> (\<exists>i. fst (containerDeleteSnapshots f V delim cname d)
                   = Some (Failed (DbExec (DeleteById i)))
               \<and> (\<exists>r \<in> set (db (snd (containerDeleteSnapshots f V delim cname d))).
                     row_id r = i \<and> matches (snapshots_query delim cname) r))
          \<and> (\<forall>r \<in> set (db d). matches (snapshots_query delim cname) r
                \<longrightarrow> storage_absent V (row_name r)
                      (snd (containerDeleteSnapshots f V delim cname d)))
          \<and> fst (containerDeleteSnapshots f2 V delim cname
                    (snd (containerDeleteSnapshots f V delim cname d))) = None
          \<and> (\<forall>r \<in> set (db (snd (containerDeleteSnapshots f2 V delim cname
                                   (snd (containerDeleteSnapshots f V delim cname d))))).
                \<not> matches (snapshots_query delim cname) r)
          \<and> (\<forall>r \<in> set (db d). matches (snapshots_query delim cname) r
                \<longrightarrow> storage_absent V (row_name r)
                      (snd (containerDeleteSnapshots f2 V delim cname
                              (snd (containerDeleteSnapshots f V delim cname d))))))"
proof (intro conjI)
  show "\<forall>pre i post.
       emitted d (snd (containerDeleteSnapshots f V delim cname d))
         = pre @ DbExec (DeleteById i) # post
       \<longrightarrow> (\<exists>sname. (sname, i) \<in> set (run_query (snapshots_query delim cname) (db d)))
           \<and> (\<forall>sname. (sname, i) \<in> set (run_query (snapshots_query delim cname) (db d))
                 \<longrightarrow> RemoveAll (V ''snapshots'' sname) \<in> set pre)"
    using cleanup_order by blast
next
  let ?q = "snapshots_query delim cname"
  let ?d1 = "snd (containerDeleteSnapshots f V delim cname d)"
  let ?d2 = "snd (containerDeleteSnapshots f2 V delim cname ?d1)"
  show "\<not> f (DbQueryScan ?q)
        \<and> \<not> f (FilesystemDetect (V ''containers'' cname))
        \<and> (\<forall>p. \<not> f (RemoveAll p))
        \<and> fst (containerDeleteSnapshots f V delim cname d) \<noteq> None
        \<and> \<not> f2 (DbQueryScan ?q)
        \<and> \<not> f2 (FilesystemDetect (V ''containers'' cname))
        \<and> (\<forall>i. \<not> f2 (DbExec (DeleteById i)))
      \<longrightarrow> (\<exists>i. fst (containerDeleteSnapshots f V delim cname d)
                   = Some (Failed (DbExec (DeleteById i)))
               \<and> (\<exists>r \<in> set (db ?d1). row_id r = i \<and> matches ?q r))
          \<and> (\<forall>r \<in> set (db d). matches ?q r \<longrightarrow> storage_absent V (row_name r) ?d1)
          \<and> fst (containerDeleteSnapshots f2 V delim cname ?d1) = None
          \<and> (\<forall>r \<in> set (db ?d2). \<not> matches ?q r)
          \<and> (\<forall>r \<in> set (db d). matches ?q r \<longrightarrow> storage_absent V (row_name r) ?d2)"
  proof (intro impI, elim conjE)
    assume h: "\<not> f (DbQueryScan ?q)" "\<not> f (FilesystemDetect (V ''containers'' cname))"
      "\<forall>p. \<not> f (RemoveAll p)" "fst (containerDeleteSnapshots f V delim cname d) \<noteq> None"
      and h2: "\<not> f2 (DbQueryScan ?q)" "\<not> f2 (FilesystemDetect (V ''containers'' cname))"
      "\<forall>i. \<not> f2 (DbExec (DeleteById i))"
    note first = cleanup_failed_delete
      [where f = f and V = V and delim = delim and cname = cname and d = d, OF h]
    note second = cleanup_completes
      [where f = f2 and V = V and delim = delim and cname = cname and d = ?d1, OF h2]
    have absent2: "\<forall>r \<in> set (db d). matches ?q r \<longrightarrow> storage_absent V (row_name r) ?d2"
    proof (intro ballI impI)
      fix r
      assume "r \<in> set (db d)" "matches ?q r"
      then have "storage_absent V (row_name r) ?d1"
        using first by blast
      moreover have "set (storage ?d2) \<subseteq> set (storage ?d1)"
        using second by blast
      ultimately show "storage_absent V (row_name r) ?d2"
        by (auto simp: storage_absent_def list_all_iff)
    qed
    from first second absent2
    show "(\<exists>i. fst (containerDeleteSnapshots f V delim cname d)
                   = Some (Failed (DbExec (DeleteById i)))
               \<and> (\<exists>r \<in> set (db ?d1). row_id r = i \<and> matches ?q r))
          \<and> (\<forall>r \<in> set (db d). matches ?q r \<longrightarrow> storage_absent V (row_name r) ?d1)
          \<and> fst (containerDeleteSnapshots f2 V delim cname ?d1) = None
          \<and> (\<forall>r \<in> set (db ?d2). \<not> matches ?q r)
          \<and> (\<forall>r \<in> set (db d). matches ?q r \<longrightarrow> storage_absent V (row_name r) ?d2)"
      by (intro conjI) (elim conjE, assumption)+
  qed
qed


theorem C4_snapshot_cleanup_witness:
  "emitted world_snapshots (snd (containerDeleteSnapshots fail_delete_3 VarPath_lxd ''/'' ''c1''
                                  world_snapshots))
     = [DbQueryScan (snapshots_query ''/'' ''c1''),
        FilesystemDetect ''/var/lib/lxd/containers/c1'',
        BtrfsDeleteSubvol ''/var/lib/lxd/snapshots/c1/s0'',
        RemoveAll ''/var/lib/lxd/snapshots/c1/s0'',
        BtrfsDeleteSubvol ''/var/lib/lxd/snapshots/c1/s1'',
        RemoveAll ''/var/lib/lxd/snapshots/c1/s1'',
        DbExec (DeleteById 2)]
       @ DbExec (DeleteById 3) # []
   \<and> (''c1/s1'', 3) \<in> set (run_query (snapshots_query ''/'' ''c1'') (db world_snapshots))
   \<and> RemoveAll (VarPath_lxd ''snapshots'' ''c1/s1'')
        \<in> set [DbQueryScan (snapshots_query ''/'' ''c1''),
                FilesystemDetect ''/var/lib/lxd/containers/c1'',
                BtrfsDeleteSubvol ''/var/lib/lxd/snapshots/c1/s0'',
                RemoveAll ''/var/lib/lxd/snapshots/c1/s0'',
                BtrfsDeleteSubvol ''/var/lib/lxd/snapshots/c1/s1'',
                RemoveAll ''/var/lib/lxd/snapshots/c1/s1'',
                DbExec (DeleteById 2)]
   \<and> fst (containerDeleteSnapshots fail_delete_3 VarPath_lxd ''/'' ''c1'' world_snapshots)
       = Some (Failed (DbExec (DeleteById 3)))
   \<and> storage_absent VarPath_lxd ''c1/s1''
        (snd (containerDeleteSnapshots fail_delete_3 VarPath_lxd ''/'' ''c1'' world_snapshots))
   \<and> fst (containerDeleteSnapshots no_faults VarPath_lxd ''/'' ''c1''
             (snd (containerDeleteSnapshots fail_delete_3 VarPath_lxd ''/'' ''c1''
                     world_snapshots))) = None
   \<and> list_all (\<lambda>r. \<not> matches (snapshots_query ''/'' ''c1'') r)
        (db (snd (containerDeleteSnapshots no_faults VarPath_lxd ''/'' ''c1''
                    (snd (containerDeleteSnapshots fail_delete_3 VarPath_lxd ''/'' ''c1''
                            world_snapshots)))))
   \<and> storage_absent VarPath_lxd ''c1/s1''
        (snd (containerDeleteSnapshots no_faults VarPath_lxd ''/'' ''c1''
                (snd (containerDeleteSnapshots fail_delete_3 VarPath_lxd ''/'' ''c1''
                        world_snapshots))))"
proof -
  let ?q = "snapshots_query ''/'' ''c1''"
  let ?run1 = "containerDeleteSnapshots fail_delete_3 VarPath_lxd ''/'' ''c1'' world_snapshots"
  let ?run2 = "containerDeleteSnapshots no_faults VarPath_lxd ''/'' ''c1'' (snd ?run1)"
  let ?pre = "[DbQueryScan ?q,
        FilesystemDetect ''/var/lib/lxd/containers/c1'',
        BtrfsDeleteSubvol ''/var/lib/lxd/snapshots/c1/s0'',
        RemoveAll ''/var/lib/lxd/snapshots/c1/s0'',
        BtrfsDeleteSubvol ''/var/lib/lxd/snapshots/c1/s1'',
        RemoveAll ''/var/lib/lxd/snapshots/c1/s1'',
        DbExec (DeleteById 2)]"
  note t = C4_snapshot_cleanup [of world_snapshots fail_delete_3 VarPath_lxd "''/''" "''c1''"
      no_faults]
  note t_order = t [THEN conjunct1, rule_format]
  note t_retry = t [THEN conjunct2, rule_format]
  have res: "run_query ?q (db world_snapshots) = [(''c1/s0'', 2), (''c1/s1'', 3)]"
    by (simp add: run_query_def snapshots_query_def world_snapshots_def)
  have run1: "?run1 =
      (Some (Failed (DbExec (DeleteById 3))),
       world_snapshots
         \<lparr>db := filter (\<lambda>r. row_id r \<noteq> 2) (db world_snapshots),
          storage := [''/var/lib/lxd/containers/c1'', ''/var/lib/lxd/snapshots/c10/s0''],
          trace := ?pre @ DbExec (DeleteById 3) # []\<rparr>)"
    by code_simp
  have em: "emitted world_snapshots (snd ?run1) = ?pre @ DbExec (DeleteById 3) # []"
    unfolding run1 by (simp add: emitted_def world_snapshots_def)
  have row: "(''c1/s1'', 3) \<in> set (run_query ?q (db world_snapshots))"
    unfolding res by simp
  have "\<forall>sname. (sname, 3) \<in> set (run_query ?q (db world_snapshots))
           \<longrightarrow> RemoveAll (VarPath_lxd ''snapshots'' sname) \<in> set ?pre"
    using t_order [OF em] by blast
  with row have removed: "RemoveAll (VarPath_lxd ''snapshots'' ''c1/s1'') \<in> set ?pre"
    by blast
  have hyps: "\<not> fail_delete_3 (DbQueryScan ?q)
        \<and> \<not> fail_delete_3 (FilesystemDetect (VarPath_lxd ''containers'' ''c1''))
        \<and> (\<forall>p. \<not> fail_delete_3 (RemoveAll p))
        \<and> fst ?run1 \<noteq> None
        \<and> \<not> no_faults (DbQueryScan ?q)
        \<and> \<not> no_faults (FilesystemDetect (VarPath_lxd ''containers'' ''c1''))
        \<and> (\<forall>i. \<not> no_faults (DbExec (DeleteById i)))"
    unfolding run1 by (simp add: fail_delete_3_def no_faults_def)
  note concl = t_retry [OF hyps]
  have s1: "''c1/s1'' = row_name \<lparr>row_id = 3, row_name = ''c1/s1'', row_type = cTypeSnapshot,
              row_ephemeral = False, power_state = 0\<rparr>"
    by simp
  have m: "\<lparr>row_id = 3, row_name = ''c1/s1'', row_type = cTypeSnapshot,
              row_ephemeral = False, power_state = 0\<rparr> \<in> set (db world_snapshots)"
    "matches ?q \<lparr>row_id = 3, row_name = ''c1/s1'', row_type = cTypeSnapshot,
              row_ephemeral = False, power_state = 0\<rparr>"
    by (simp_all add: world_snapshots_def snapshots_query_def)
  have absent1: "storage_absent VarPath_lxd ''c1/s1'' (snd ?run1)"
    using concl m by (subst s1) blast
  have absent2: "storage_absent VarPath_lxd ''c1/s1'' (snd ?run2)"
    using concl m by (subst s1) blast
  have none2: "fst ?run2 = None"
    using concl by blast
  have rows2: "list_all (\<lambda>r. \<not> matches ?q r) (db (snd ?run2))"
    using concl by (simp add: list_all_iff)
  have fst1: "fst ?run1 = Some (Failed (DbExec (DeleteById 3)))"
    unfolding run1 by simp
  show ?thesis
    using em row removed fst1 absent1 none2 rows2 absent2 by (intro conjI)
qed

subsection \<open>The ephemeral watcher\<close>







lemma container_IsEmpheral_record_call [simp]:
  "container_IsEmpheral r (record_call c d) = container_IsEmpheral r d"
  by (simp add: container_IsEmpheral_def record_call_simps)





subsection \<open>The goroutines of mass shutdown\<close>

lemma successors_AtLoop_Nil:
  assumes "joined p" and "pc p = AtLoop []"
  shows "successors f p = [p\<lparr>pc := Finished None\<rparr>]"
  using assms by (simp add: successors_def main_step_def joined_def)

lemma successors_AtLoop_Cons:
  assumes "joined p" and "pc p = AtLoop (r # rs)"
  shows "successors f p =
     [if f (NewLxdContainer r)
      then p\<lparr>pc := Finished (Some (Failed (NewLxdContainer r))),
             world := record_call (NewLxdContainer r) (world p)\<rparr>
      else if r \<notin> set (running (world p))
      then p\<lparr>pc := AtWait rs,
             world := record_call (IsRunning r False) (record_call (NewLxdContainer r) (world p))\<rparr>
      else if f (DbExec (SetPowerState r))
      then p\<lparr>pc := Finished (Some (Failed (DbExec (SetPowerState r)))),
             world := record_call (DbExec (SetPowerState r))
                        (record_call (IsRunning r True) (record_call (NewLxdContainer r) (world p)))\<rparr>
      else p\<lparr>pc := AtWait rs, wg := wg p + 1, goroutines := goroutines p @ [(r, GShutdown)],
             world := snd (dbExec f (SetPowerState r)
                        (record_call (IsRunning r True) (record_call (NewLxdContainer r) (world p))))\<rparr>]"
  using assms
  by (simp add: successors_def main_step_def joined_def newLxdContainer_def
      container_IsRunning_def dbExec_def record_call_simps)

lemma successors_Finished:
  assumes "joined p" and "pc p = Finished res"
  shows "successors f p = []"
  using assms by (simp add: successors_def main_step_def joined_def)

lemma successors_AtWait_none:
  assumes "joined p" and "pc p = AtWait rs" and "goroutines p = []"
  shows "successors f p = [p\<lparr>pc := AtLoop rs\<rparr>]"
  using assms by (simp add: successors_def main_step_def joined_def)

lemma successors_AtWait_one:
  assumes "joined p" and "pc p = AtWait rs" and "goroutines p = [(r, s)]"
  shows "successors f p =
     [case s of
        GShutdown \<Rightarrow> p\<lparr>goroutines := [(r, GStop)],
                       world := snd (container_Shutdown f r 30 (world p))\<rparr>
      | GStop \<Rightarrow> p\<lparr>goroutines := [(r, GDone)], world := snd (container_Stop f r (world p))\<rparr>
      | GDone \<Rightarrow> p\<lparr>goroutines := [], wg := 0\<rparr>]"
  using assms
  by (cases s) (simp_all add: successors_def main_step_def joined_def goroutine_step_def)

lemma joined_goroutines:
  assumes "joined p"
  obtains "goroutines p = []" | r s where "goroutines p = [(r, s)]"
proof (cases "goroutines p")
  case Nil
  then show ?thesis by (rule that(1))
next
  case (Cons g gs)
  then have "gs = []"
    using assms by (simp add: joined_def)
  then show ?thesis
    using Cons that(2) [of "fst g" "snd g"] by simp
qed

lemma successor_keeps_joined:
  assumes "joined p" and "p' \<in> set (successors f p)"
  shows "joined p' \<and> rest f p' = rest f p"
proof (cases "pc p")
  case (AtLoop rs)
  then have none: "goroutines p = []" "wg p = 0"
    using assms(1) by (simp_all add: joined_def)
  show ?thesis
  proof (cases rs)
    case Nil
    then have "p' = p\<lparr>pc := Finished None\<rparr>"
      using assms AtLoop successors_AtLoop_Nil by simp
    then show ?thesis
      using AtLoop Nil none by (simp add: joined_def rest_def)
  next
    case (Cons r rs')
    note s = successors_AtLoop_Cons [OF assms(1) AtLoop [unfolded Cons], of f]
    show ?thesis
    proof (cases "f (NewLxdContainer r)")
      case True
      then show ?thesis
        using assms(2) s AtLoop Cons none
        by (simp add: joined_def rest_def newLxdContainer_def)
    next
      case load: False
      show ?thesis
      proof (cases "r \<in> set (running (world p))")
        case False
        then show ?thesis
          using assms(2) s AtLoop Cons none load
          by (simp add: joined_def rest_def newLxdContainer_def container_IsRunning_def
              record_call_simps)
      next
        case True
        show ?thesis
        proof (cases "f (DbExec (SetPowerState r))")
          case upd: True
          then show ?thesis
            using assms(2) s AtLoop Cons none load True
            by (simp add: joined_def rest_def newLxdContainer_def container_IsRunning_def
                dbExec_def record_call_simps)
        next
          case upd: False
          then show ?thesis
            using assms(2) s AtLoop Cons none load True
            by (simp add: joined_def rest_def newLxdContainer_def container_IsRunning_def
                dbExec_def record_call_simps)
        qed
      qed
    qed
  qed
next
  case (AtWait rs)
  from assms(1) show ?thesis
  proof (cases rule: joined_goroutines)
    case 1
    then have "p' = p\<lparr>pc := AtLoop rs\<rparr>"
      using assms AtWait successors_AtWait_none by simp
    then show ?thesis
      using AtWait 1 assms(1) by (simp add: joined_def rest_def)
  next
    case (2 r s)
    note succ = successors_AtWait_one [OF assms(1) AtWait 2, of f]
    show ?thesis
    proof (cases s)
      case GShutdown
      then show ?thesis
        using assms succ AtWait 2 by (simp add: joined_def rest_def shutdown_goroutine_def)
    next
      case GStop
      then show ?thesis
        using assms succ AtWait 2 by (simp add: joined_def rest_def)
    next
      case GDone
      then show ?thesis
        using assms succ AtWait 2 by (simp add: joined_def rest_def)
    qed
  qed
next
  case (Finished res)
  then show ?thesis
    using assms successors_Finished by simp
qed

lemma joined_enter_loop: "joined (enter_loop rs d)"
  by (simp add: joined_def enter_loop_def)

lemma rest_enter_loop: "rest f (enter_loop rs d) = shutdown_loop f rs d"
  by (simp add: rest_def enter_loop_def)

lemma reachable_joined:
  "reachable f (enter_loop rs d) p \<Longrightarrow> joined p \<and> rest f p = shutdown_loop f rs d"
proof (induction rule: reachable.induct)
  case reach_start
  show ?case
    by (simp add: joined_enter_loop rest_enter_loop)
next
  case (reach_step p p')
  then show ?case
    using successor_keeps_joined [of p p' f] by simp
qed

lemma reachable_trans:
  assumes "reachable f p p'" and "reachable f p0 p"
  shows "reachable f p0 p'"
  using assms by (induction rule: reachable.induct) (auto intro: reach_step)

text \<open>The run of the program from the head of the loop: it ends, with the result and
  the state that \<open>shutdown_loop\<close> computes.\<close>

lemma loop_runs:
  "reachable f \<lparr>pc = AtLoop rs, wg = 0, goroutines = [], world = d\<rparr>
     \<lparr>pc = Finished (fst (shutdown_loop f rs d)), wg = 0, goroutines = [],
      world = snd (shutdown_loop f rs d)\<rparr>"
proof (induction rs arbitrary: d)
  case Nil
  let ?p = "\<lparr>pc = AtLoop [], wg = 0, goroutines = [], world = d\<rparr>"
  have "\<lparr>pc = Finished None, wg = 0, goroutines = [], world = d\<rparr> \<in> set (successors f ?p)"
    by (simp add: successors_def main_step_def)
  then show ?case
    using reach_step [OF reach_start] by simp
next
  case (Cons r rs)
  let ?p = "\<lparr>pc = AtLoop (r # rs), wg = 0, goroutines = [], world = d\<rparr>"
  have j: "joined ?p"
    by (simp add: joined_def)
  note s = successors_AtLoop_Cons [OF j, of r rs f, simplified]
  show ?case
  proof (cases "f (NewLxdContainer r)")
    case True
    then have "\<lparr>pc = Finished (fst (shutdown_loop f (r # rs) d)), wg = 0, goroutines = [],
                 world = snd (shutdown_loop f (r # rs) d)\<rparr> \<in> set (successors f ?p)"
      unfolding s by (simp add: shutdown_loop_Cons record_call_def del: shutdown_loop.simps)
    then show ?thesis
      using reach_step [OF reach_start] by blast
  next
    case load: False
    show ?thesis
    proof (cases "r \<in> set (running d)")
      case False
      let ?d2 = "d\<lparr>trace := trace d @ [NewLxdContainer r, IsRunning r False]\<rparr>"
      let ?p1 = "\<lparr>pc = AtWait rs, wg = 0, goroutines = [], world = ?d2\<rparr>"
      let ?p2 = "\<lparr>pc = AtLoop rs, wg = 0, goroutines = [], world = ?d2\<rparr>"
      have "?p1 \<in> set (successors f ?p)"
        unfolding s using load False by (simp add: record_call_def)
      then have r1: "reachable f ?p ?p1"
        using reach_step [OF reach_start] by blast
      have "?p2 \<in> set (successors f ?p1)"
        by (simp add: successors_def main_step_def)
      with r1 have r2: "reachable f ?p ?p2"
        by (rule reach_step)
      have "shutdown_loop f (r # rs) d = shutdown_loop f rs ?d2"
        using load False by (simp add: shutdown_loop_Cons del: shutdown_loop.simps)
      then show ?thesis
        using reachable_trans [OF Cons.IH [of ?d2] r2] by simp
    next
      case True
      show ?thesis
      proof (cases "f (DbExec (SetPowerState r))")
        case upd: True
        then have "\<lparr>pc = Finished (fst (shutdown_loop f (r # rs) d)), wg = 0, goroutines = [],
                 world = snd (shutdown_loop f (r # rs) d)\<rparr> \<in> set (successors f ?p)"
          unfolding s using load True
          by (simp add: shutdown_loop_Cons record_call_def del: shutdown_loop.simps)
        then show ?thesis
          using reach_step [OF reach_start] by blast
      next
        case upd: False
        let ?d3 = "snd (dbExec f (SetPowerState r)
                     (record_call (IsRunning r True) (record_call (NewLxdContainer r) d)))"
        let ?d4 = "snd (container_Shutdown f r 30 ?d3)"
        let ?d5 = "snd (container_Stop f r ?d4)"
        let ?p1 = "\<lparr>pc = AtWait rs, wg = 1, goroutines = [(r, GShutdown)], world = ?d3\<rparr>"
        let ?p2 = "\<lparr>pc = AtWait rs, wg = 1, goroutines = [(r, GStop)], world = ?d4\<rparr>"
        let ?p3 = "\<lparr>pc = AtWait rs, wg = 1, goroutines = [(r, GDone)], world = ?d5\<rparr>"
        let ?p4 = "\<lparr>pc = AtWait rs, wg = 0, goroutines = [], world = ?d5\<rparr>"
        let ?p5 = "\<lparr>pc = AtLoop rs, wg = 0, goroutines = [], world = ?d5\<rparr>"
        have "?p1 \<in> set (successors f ?p)"
          unfolding s using load True upd by simp
        then have r1: "reachable f ?p ?p1"
          using reach_step [OF reach_start] by blast
        have "?p2 \<in> set (successors f ?p1)"
          by (simp add: successors_def main_step_def goroutine_step_def)
        with r1 have r2: "reachable f ?p ?p2"
          by (rule reach_step)
        have "?p3 \<in> set (successors f ?p2)"
          by (simp add: successors_def main_step_def goroutine_step_def)
        with r2 have r3: "reachable f ?p ?p3"
          by (rule reach_step)
        have "?p4 \<in> set (successors f ?p3)"
          by (simp add: successors_def main_step_def goroutine_step_def)
        with r3 have r4: "reachable f ?p ?p4"
          by (rule reach_step)
        have "?p5 \<in> set (successors f ?p4)"
          by (simp add: successors_def main_step_def)
        with r4 have r5: "reachable f ?p ?p5"
          by (rule reach_step)
        have "shutdown_loop f (r # rs) d = shutdown_loop f rs ?d5"
          using load True upd
          by (simp add: newLxdContainer_def container_IsRunning_def dbExec_def
              shutdown_goroutine_def record_call_simps)
        then show ?thesis
          using reachable_trans [OF Cons.IH [of ?d5] r5] by simp
      qed
    qed
  qed
qed

text \<open>
  Claim C8, against the code. In every state that \<^verbatim>\<open>containersShutdown\<close> can reach, under
  every schedule of its threads, at most one goroutine is live, and none is when the
  main thread is at the head of the loop: the shutdown attempt on an instance has
  ended before the next instance is even loaded, so the attempts are never in flight
  together. The second half of the claim holds: when the function has returned no
  goroutine is live, and its result and the state are those of the loop read
  sequentially; such a run exists.
\<close>

theorem C8_one_attempt_at_a_time:
  "(\<forall>p. reachable f (enter_loop rs d) p
        \<longrightarrow> length (goroutines p) \<le> 1
            \<and> wg p = length (goroutines p)
            \<and> (\<forall>rs'. pc p = AtLoop rs' \<longrightarrow> goroutines p = [])
            \<and> (\<forall>res. pc p = Finished res
                  \<longrightarrow> goroutines p = [] \<and> (res, world p) = shutdown_loop f rs d))
   \<and> reachable f (enter_loop rs d)
        \<lparr>pc = Finished (fst (shutdown_loop f rs d)), wg = 0, goroutines = [],
         world = snd (shutdown_loop f rs d)\<rparr>"
proof (intro conjI allI impI)
  fix p
  assume "reachable f (enter_loop rs d) p"
  then have j: "joined p" and r: "rest f p = shutdown_loop f rs d"
    using reachable_joined by blast+
  show "length (goroutines p) \<le> 1" and "wg p = length (goroutines p)"
    using j by (simp_all add: joined_def)
  {
    fix rs'
    assume "pc p = AtLoop rs'"
    then show "goroutines p = []"
      using j by (simp add: joined_def)
  }
  {
    fix res
    assume "pc p = Finished res"
    then show "goroutines p = []" and "(res, world p) = shutdown_loop f rs d"
      using j r by (simp_all add: joined_def rest_def)
  }
next
  show "reachable f (enter_loop rs d)
        \<lparr>pc = Finished (fst (shutdown_loop f rs d)), wg = 0, goroutines = [],
         world = snd (shutdown_loop f rs d)\<rparr>"
    unfolding enter_loop_def by (rule loop_runs)
qed

theorem C8_one_attempt_at_a_time_witness:
  "reachable no_faults (enter_loop [''a'', ''b'', ''c''] world_shutdown) prog_a_started
   \<and> pc prog_a_started = AtWait [''b'', ''c'']
   \<and> goroutines prog_a_started = [(''a'', GShutdown)]
   \<and> ''b'' \<in> set (running (world prog_a_started))
   \<and> length (goroutines prog_a_started) \<le> 1
   \<and> goroutines prog_both = [(''a'', GShutdown), (''b'', GShutdown)]
   \<and> \<not> reachable no_faults (enter_loop [''a'', ''b'', ''c''] world_shutdown) prog_both"
proof -
  let ?init = "enter_loop [''a'', ''b'', ''c''] world_shutdown"
  note t = C8_one_attempt_at_a_time [of no_faults "[''a'', ''b'', ''c'']" world_shutdown,
      THEN conjunct1, rule_format]
  have "prog_a_started \<in> set (successors no_faults ?init)"
    by (simp add: successors_def main_step_def enter_loop_def prog_a_started_def
        newLxdContainer_def container_IsRunning_def dbExec_def record_call_def
        no_faults_def world_shutdown_def)
  then have r: "reachable no_faults ?init prog_a_started"
    using reach_step [OF reach_start] by blast
  have one: "length (goroutines prog_a_started) \<le> 1"
    using t [OF r] by blast
  have both: "\<not> reachable no_faults ?init prog_both"
  proof
    assume "reachable no_faults ?init prog_both"
    from t [OF this] have "length (goroutines prog_both) \<le> 1"
      by blast
    then show False
      by (simp add: prog_both_def)
  qed
  have facts: "pc prog_a_started = AtWait [''b'', ''c'']"
    "goroutines prog_a_started = [(''a'', GShutdown)]"
    "''b'' \<in> set (running (world prog_a_started))"
    "goroutines prog_both = [(''a'', GShutdown), (''b'', GShutdown)]"
    by (simp_all add: prog_a_started_def prog_both_def dbExec_def container_IsRunning_def
        newLxdContainer_def record_call_def no_faults_def world_shutdown_def)
  show ?thesis
    using r one both facts by (intro conjI)
qed

section \<open>Properties of the session transport\<close>

lemma session_run_append:
  "session_run s (xs @ ys) =
     (case session_run s xs of None \<Rightarrow> None | Some s' \<Rightarrow> session_run s' ys)"
  by (induction xs arbitrary: s) (auto split: option.splits)

lemma connect_keeps:
  assumes "connect s secret conn = Some s'" and "barrier_inv s"
  shows "barrier_inv s' \<and> required s' = required s"
proof -
  from assms(1) obtain i sec where s': "s' = s\<lparr>conns := (conns s)(i \<mapsto> conn),
                  controlConnected := (controlConnected s \<or> i = - 1),
                  allConnected :=
                    (allConnected s
                     \<or> list_all (\<lambda>j. ((conns s)(i \<mapsto> conn)) j \<noteq> None) (required s))\<rparr>"
    by (auto simp: connect_def split: option.splits)
  have req: "required s' = required s"
    unfolding s' by (simp add: required_def)
  have mono: "all_connected s \<Longrightarrow> all_connected s'"
    unfolding s' by (auto simp: all_connected_def required_def list_all_iff)
  have new: "list_all (\<lambda>j. ((conns s)(i \<mapsto> conn)) j \<noteq> None) (required s) \<Longrightarrow> all_connected s'"
    unfolding s' by (simp add: all_connected_def required_def)
  have "allConnected s' \<longrightarrow> all_connected s'"
    using assms(2) mono new unfolding s' by (auto simp: barrier_inv_def)
  moreover have "relayed s' \<noteq> [] \<longrightarrow> allConnected s'"
    using assms(2) unfolding s' by (simp add: barrier_inv_def)
  ultimately show ?thesis
    using req by (simp add: barrier_inv_def)
qed

lemma relay_keeps:
  assumes "relay s i b = Some s'" and "barrier_inv s"
  shows "barrier_inv s' \<and> required s' = required s"
  using assms
  by (auto simp: relay_def barrier_inv_def all_connected_def required_def split: if_splits)

lemma session_step_keeps:
  assumes "session_step s e = Some s'" and "barrier_inv s"
  shows "barrier_inv s' \<and> required s' = required s"
  using assms connect_keeps relay_keeps by (cases e) auto

lemma session_run_keeps:
  "session_run s evs = Some s' \<Longrightarrow> barrier_inv s \<Longrightarrow> barrier_inv s' \<and> required s' = required s"
proof (induction evs arbitrary: s)
  case Nil
  then show ?case by simp
next
  case (Cons e evs)
  from Cons.prems(1) obtain s1 where s1: "session_step s e = Some s1" "session_run s1 evs = Some s'"
    by (auto split: option.splits)
  from session_step_keeps [OF s1(1) Cons.prems(2)]
  have "barrier_inv s1" "required s1 = required s"
    by simp_all
  with Cons.IH [OF s1(2)] show ?case
    by simp
qed

lemma barrier_inv_new: "barrier_inv (newExecWs ia sec)"
  by (simp add: barrier_inv_def newExecWs_def)

text \<open>
  Claim C9. A session has the control channel and one (interactive) or three data
  channels as its required channels. In every run of a session, the events before a
  relayed byte have connected every required channel; as long as a required channel
  is not connected, nothing has been relayed on any channel and a relay on any channel
  is refused.
\<close>

theorem C9_barrier:
  "required (newExecWs ia sec) = (if ia then [- 1, 0] else [- 1, 0, 1, 2])
   \<and> (\<forall>pre i b post s.
         session_run (newExecWs ia sec) (pre @ Relay i b # post) = Some s
         \<longrightarrow> (\<exists>s1. session_run (newExecWs ia sec) pre = Some s1
                   \<and> required s1 = required (newExecWs ia sec)
                   \<and> (\<forall>j \<in> set (required s1). conns s1 j \<noteq> None)))
   \<and> (\<forall>evs s j.
         session_run (newExecWs ia sec) evs = Some s
           \<and> j \<in> set (required (newExecWs ia sec)) \<and> conns s j = None
         \<longrightarrow> relayed s = []
             \<and> (\<forall>i b. session_run (newExecWs ia sec) (evs @ [Relay i b]) = None))"
proof -
  have one: "required (newExecWs ia sec) = (if ia then [- 1, 0] else [- 1, 0, 1, 2])"
    by (simp add: required_def newExecWs_def comp_def)
  have two: "\<forall>pre i b post s.
         session_run (newExecWs ia sec) (pre @ Relay i b # post) = Some s
         \<longrightarrow> (\<exists>s1. session_run (newExecWs ia sec) pre = Some s1
                   \<and> required s1 = required (newExecWs ia sec)
                   \<and> (\<forall>j \<in> set (required s1). conns s1 j \<noteq> None))"
  proof (intro allI impI)
    fix pre i b post s
    assume run: "session_run (newExecWs ia sec) (pre @ Relay i b # post) = Some s"
    then obtain s1 where s1: "session_run (newExecWs ia sec) pre = Some s1"
      and rel: "session_run s1 (Relay i b # post) = Some s"
      by (auto simp: session_run_append split: option.splits)
    from session_run_keeps [OF s1 barrier_inv_new]
    have inv: "barrier_inv s1" and req: "required s1 = required (newExecWs ia sec)"
      by simp_all
    from rel have "allConnected s1"
      by (auto simp: relay_def split: option.splits if_splits)
    with inv have "all_connected s1"
      by (simp add: barrier_inv_def)
    then have "\<forall>j \<in> set (required s1). conns s1 j \<noteq> None"
      by (simp add: all_connected_def list_all_iff)
    with s1 req
    show "\<exists>s1. session_run (newExecWs ia sec) pre = Some s1
                   \<and> required s1 = required (newExecWs ia sec)
                   \<and> (\<forall>j \<in> set (required s1). conns s1 j \<noteq> None)"
      by blast
  qed
  have three: "\<forall>evs s j.
         session_run (newExecWs ia sec) evs = Some s
           \<and> j \<in> set (required (newExecWs ia sec)) \<and> conns s j = None
         \<longrightarrow> relayed s = []
             \<and> (\<forall>i b. session_run (newExecWs ia sec) (evs @ [Relay i b]) = None)"
  proof (intro allI impI)
    fix evs s j
    assume a: "session_run (newExecWs ia sec) evs = Some s
           \<and> j \<in> set (required (newExecWs ia sec)) \<and> conns s j = None"
    then have run: "session_run (newExecWs ia sec) evs = Some s" by simp
    from session_run_keeps [OF run barrier_inv_new]
    have inv: "barrier_inv s" and req: "required s = required (newExecWs ia sec)"
      by simp_all
    have "\<not> all_connected s"
      using a req by (auto simp: all_connected_def list_all_iff)
    with inv have closed: "\<not> allConnected s" and none: "relayed s = []"
      by (auto simp: barrier_inv_def)
    have "\<forall>i b. session_run (newExecWs ia sec) (evs @ [Relay i b]) = None"
      using run closed by (simp add: session_run_append relay_def)
    with none
    show "relayed s = [] \<and> (\<forall>i b. session_run (newExecWs ia sec) (evs @ [Relay i b]) = None)"
      by simp
  qed
  from one two three show ?thesis
    by (intro conjI)
qed

theorem C9_barrier_witness:
  "session_run (newExecWs False example_secret)
     ([Connect ''ctl'' 1, Connect ''in'' 2, Connect ''out'' 3, Connect ''err'' 4]
      @ Relay 1 65 # []) \<noteq> None
   \<and> (\<exists>s1. session_run (newExecWs False example_secret)
              [Connect ''ctl'' 1, Connect ''in'' 2, Connect ''out'' 3, Connect ''err'' 4] = Some s1
          \<and> required s1 = [- 1, 0, 1, 2]
          \<and> conns s1 2 \<noteq> None)
   \<and> (\<exists>s. session_run (newExecWs False example_secret)
             [Connect ''ctl'' 1, Connect ''in'' 2, Connect ''out'' 3] = Some s
          \<and> conns s 2 = None \<and> relayed s = [])
   \<and> session_run (newExecWs False example_secret)
        ([Connect ''ctl'' 1, Connect ''in'' 2, Connect ''out'' 3] @ [Relay 1 65]) = None"
proof -
  let ?init = "newExecWs False example_secret"
  let ?four = "[Connect ''ctl'' 1, Connect ''in'' 2, Connect ''out'' 3, Connect ''err'' 4]"
  let ?three = "[Connect ''ctl'' 1, Connect ''in'' 2, Connect ''out'' 3]"
  note t = C9_barrier [of False example_secret]
  note t_req = t [THEN conjunct1]
  note t_pre = t [THEN conjunct2, THEN conjunct1, rule_format]
  note t_closed = t [THEN conjunct2, THEN conjunct2, rule_format]
  have req: "required ?init = [- 1, 0, 1, 2]"
    using t_req by simp
  obtain s where s: "session_run ?init (?four @ Relay 1 65 # []) = Some s"
    by (simp add: newExecWs_def connect_def relay_def required_def)
  from t_pre [OF s] obtain s1 where s1: "session_run ?init ?four = Some s1"
    "required s1 = required ?init" "\<forall>j \<in> set (required s1). conns s1 j \<noteq> None"
    by blast
  then have c2: "conns s1 2 \<noteq> None"
    using req by simp
  obtain s3 where s3: "session_run ?init ?three = Some s3" "conns s3 2 = None"
    by (simp add: newExecWs_def connect_def relay_def required_def)
  have "session_run ?init ?three = Some s3 \<and> 2 \<in> set (required ?init) \<and> conns s3 2 = None"
    using s3 req by simp
  from t_closed [OF this] have closed: "relayed s3 = []"
    "session_run ?init (?three @ [Relay 1 65]) = None"
    by blast+
  show ?thesis
    using s s1 c2 s3 closed req by auto
qed
end
